theory Spec2Isabelle
  imports Main "HOL-Library.AList" "HOL-Library.Sublist"
begin

section \<open>Errors and effectful computations\<close>

text \<open>
  Every exception the two source files raise themselves, or let through from a
  collaborator, is a value of \<open>error\<close>.  The Python built-in exceptions stand for the
  failing dictionary, list and attribute accesses of the source.
\<close>

datatype error =
    PresentationManagerError string
  | ProtocolError
  | KeyError string
  | IndexError
  | TypeError
  | AttributeError
  | UnboundLocalError
  | StorageNotFoundError
  | StorageDuplicateError
  | IndyError string
  | RevocationNotSupportedError
  | HTTPNotFound
  | HTTPBadRequest
  | ExternalError string

text \<open>
  A coroutine of the source is a function from the state of the outside world to a
  result (an error or a value) and the state afterwards.  An exception leaves the state
  as it was when it was raised.
\<close>

type_synonym ('s, 'a) io = "'s \<Rightarrow> (error + 'a) \<times> 's"

definition ret :: "'a \<Rightarrow> ('s, 'a) io" where
  "ret x = (\<lambda>s. (Inr x, s))"

definition raise :: "error \<Rightarrow> ('s, 'a) io" where
  "raise e = (\<lambda>s. (Inl e, s))"

definition bnd :: "('s, 'a) io \<Rightarrow> ('a \<Rightarrow> ('s, 'b) io) \<Rightarrow> ('s, 'b) io" where
  "bnd m f = (\<lambda>s. case m s of (Inl e, s') \<Rightarrow> (Inl e, s') | (Inr x, s') \<Rightarrow> f x s')"

definition lift :: "error + 'a \<Rightarrow> ('s, 'a) io" where
  "lift r = (\<lambda>s. (r, s))"

section \<open>Revocation registry admin routes (revocation/routes.py)\<close>

record registry_record =
  reg_cred_def_id :: string
  tails_local_path :: string
  tails_public_uri :: "string option"

datatype route_event =
    SearchRecords "string option"
  | InitIssuerRegistry "string option" string "int option"
  | GetActiveIssuerRevocationRecord string
  | GenerateRegistry registry_record
  | PublishRegistryDefinition registry_record
  | PublishRegistryEntry registry_record
  | SaveRegistry registry_record

datatype response =
    JsonResponse registry_record
  | FileResponse string nat

text \<open>
  The storage and the revocation subsystem (\<open>BaseStorage\<close>, \<open>IndyRevocation\<close> and the
  issuer revocation record) are collaborators of the handlers: each of their operations
  is a parameter, a function from its arguments to an error or a value.
\<close>

record route_env =
  search_records :: "string option \<Rightarrow> error + string list"
  init_issuer_registry :: "string option \<Rightarrow> string \<Rightarrow> int option \<Rightarrow> error + registry_record"
  get_active_issuer_revocation_record :: "string \<Rightarrow> error + registry_record"
  generate_registry :: "registry_record \<Rightarrow> error + registry_record"
  publish_registry_definition :: "registry_record \<Rightarrow> error + registry_record"
  publish_registry_entry :: "registry_record \<Rightarrow> error + registry_record"
  save_registry :: "registry_record \<Rightarrow> error + registry_record"

record create_body =
  credential_definition_id :: "string option"
  max_cred_num :: "int option"

record update_request =
  match_info_id :: string
  body_tails_public_uri :: "string option"

text \<open>A call of a collaborator: the call is logged, then its result is the outcome.\<close>

definition rcall :: "route_event \<Rightarrow> error + 'a \<Rightarrow> (route_event list, 'a) io" where
  "rcall ev r = (\<lambda>t. (r, t @ [ev]))"

text \<open>\<open>except RevocationNotSupportedError as e: raise web.HTTPBadRequest() from e\<close>\<close>

definition bad_request_if_not_supported ::
  "(route_event list, 'a) io \<Rightarrow> (route_event list, 'a) io" where
  "bad_request_if_not_supported m =
     (\<lambda>t. case m t of
        (Inl RevocationNotSupportedError, t') \<Rightarrow> (Inl HTTPBadRequest, t')
      | other \<Rightarrow> other)"

text \<open>The check every handler but \<open>update_registry\<close> starts with.\<close>

definition check_published :: "route_env \<Rightarrow> string option \<Rightarrow> (route_event list, unit) io" where
  "check_published env cdid =
     bnd (rcall (SearchRecords cdid) (search_records env cdid))
       (\<lambda>found. if found = [] then raise HTTPNotFound else ret ())"

text \<open>\<open>credential_definition_id.split(":")[0]\<close>\<close>

definition issuer_did_of :: "string option \<Rightarrow> error + string" where
  "issuer_did_of cdid =
     (case cdid of
        None \<Rightarrow> Inl AttributeError
      | Some c \<Rightarrow> Inr (takeWhile (\<lambda>ch. ch \<noteq> CHR '':'') c))"

definition revocation_create_registry ::
  "route_env \<Rightarrow> create_body \<Rightarrow> (route_event list, response) io" where
  "revocation_create_registry env body =
     bnd (check_published env (credential_definition_id body)) (\<lambda>_.
     bnd (bad_request_if_not_supported
            (bnd (lift (issuer_did_of (credential_definition_id body))) (\<lambda>issuer_did.
               rcall (InitIssuerRegistry (credential_definition_id body) issuer_did
                        (max_cred_num body))
                 (init_issuer_registry env (credential_definition_id body) issuer_did
                    (max_cred_num body))))) (\<lambda>registry_record.
     bnd (rcall (GenerateRegistry registry_record) (generate_registry env registry_record))
       (\<lambda>generated. ret (JsonResponse generated))))"

definition get_current_registry ::
  "route_env \<Rightarrow> string \<Rightarrow> (route_event list, response) io" where
  "get_current_registry env cdid =
     bnd (check_published env (Some cdid)) (\<lambda>_.
     bnd (bad_request_if_not_supported
            (rcall (GetActiveIssuerRevocationRecord cdid)
               (get_active_issuer_revocation_record env cdid))) (\<lambda>registry_record.
     ret (JsonResponse registry_record)))"

definition get_tail_file ::
  "route_env \<Rightarrow> string \<Rightarrow> (route_event list, response) io" where
  "get_tail_file env cdid =
     bnd (check_published env (Some cdid)) (\<lambda>_.
     bnd (bad_request_if_not_supported
            (rcall (GetActiveIssuerRevocationRecord cdid)
               (get_active_issuer_revocation_record env cdid))) (\<lambda>registry_record.
     ret (FileResponse (tails_local_path registry_record) 200)))"

definition publish_registry ::
  "route_env \<Rightarrow> string \<Rightarrow> (route_event list, response) io" where
  "publish_registry env cdid =
     bnd (check_published env (Some cdid)) (\<lambda>_.
     bnd (bad_request_if_not_supported
            (rcall (GetActiveIssuerRevocationRecord cdid)
               (get_active_issuer_revocation_record env cdid))) (\<lambda>revoc_registry.
     bnd (rcall (PublishRegistryDefinition revoc_registry)
            (publish_registry_definition env revoc_registry)) (\<lambda>with_def.
     bnd (rcall (PublishRegistryEntry with_def) (publish_registry_entry env with_def))
       (\<lambda>with_entry. ret (JsonResponse with_entry)))))"

text \<open>
  \<open>set_tail_file_public_uri\<close> stores the URI of the request body on the record; the
  record is then saved.  No storage search comes first.
\<close>

definition update_registry ::
  "route_env \<Rightarrow> update_request \<Rightarrow> (route_event list, response) io" where
  "update_registry env req =
     bnd (bad_request_if_not_supported
            (rcall (GetActiveIssuerRevocationRecord (match_info_id req))
               (get_active_issuer_revocation_record env (match_info_id req))))
       (\<lambda>registry_record.
     bnd (rcall (SaveRegistry (registry_record\<lparr>tails_public_uri := body_tails_public_uri req\<rparr>))
            (save_registry env (registry_record\<lparr>tails_public_uri := body_tails_public_uri req\<rparr>)))
       (\<lambda>saved. ret (JsonResponse saved)))"

fun is_revocation_op :: "route_event \<Rightarrow> bool" where
  "is_revocation_op (SearchRecords _) = False"
| "is_revocation_op _ = True"

fun is_search :: "route_event \<Rightarrow> bool" where
  "is_search (SearchRecords _) = True"
| "is_search _ = False"

section \<open>Data of the presentation exchange (present_proof/v1_0/manager.py)\<close>

datatype exchange_state =
    STATE_PROPOSAL_SENT
  | STATE_PROPOSAL_RECEIVED
  | STATE_REQUEST_SENT
  | STATE_REQUEST_RECEIVED
  | STATE_PRESENTATION_SENT
  | STATE_PRESENTATION_RECEIVED
  | STATE_VERIFIED
  | STATE_PRESENTATION_ACKED

datatype initiator = INITIATOR_SELF | INITIATOR_EXTERNAL

datatype role = ROLE_PROVER | ROLE_VERIFIER

text \<open>
  A non-revocation interval is a dictionary with the optional keys \<open>from\<close> and \<open>to\<close>.
  As a condition (\<open>if referent_non_revoked_timespan:\<close>) a dictionary is true when it
  has a key, \<open>None\<close> is false.
\<close>

record non_revoked_interval =
  nr_from :: "int option"
  nr_to :: "int option"

definition truthy_interval :: "non_revoked_interval option \<Rightarrow> bool" where
  "truthy_interval i =
     (case i of None \<Rightarrow> False | Some d \<Rightarrow> nr_from d \<noteq> None \<or> nr_to d \<noteq> None)"

text \<open>An entry of \<open>requested_attributes\<close> or \<open>requested_predicates\<close> of a proof request.\<close>

record requested_item =
  item_name :: "string option"
  item_non_revoked :: "non_revoked_interval option"

record proof_request =
  requested_attributes :: "(string \<times> requested_item) list"
  requested_predicates :: "(string \<times> requested_item) list"
  non_revoked :: "non_revoked_interval option"

record proof_identifier =
  id_schema_id :: string
  id_cred_def_id :: string

record revealed_attr =
  sub_proof_index :: int
  raw :: string

text \<open>
  An indy proof: \<open>identifiers\<close> is a list, \<open>revealed_attrs\<close> is the dictionary
  \<open>requested_proof.revealed_attrs\<close> in the order of its items.
\<close>

record indy_proof =
  identifiers :: "proof_identifier list"
  revealed_attrs :: "(string \<times> revealed_attr) list"

record attr_spec =
  as_name :: string
  as_cred_def_id :: "string option"
  as_value :: "string option"

record presentation_preview =
  attributes :: "attr_spec list"

record proposal_message =
  proposal_thread_id :: string
  proposal_comment :: "string option"
  presentation_proposal :: presentation_preview

record request_message =
  request_thread_id :: string
  request_comment :: "string option"
  request_presentations_attach :: proof_request

record presentation_message =
  presentation_thread_id :: string
  presentation_comment :: "string option"
  presentations_attach :: indy_proof

record ack_message =
  ack_thread_id :: string

text \<open>
  The attributes of a Python object hold values of any type; \<open>verified\<close> is the one
  attribute of the exchange record whose type a claim is about.
\<close>

datatype py_value = PyBool bool | PyStr string

record exchange_record =
  presentation_exchange_id :: "nat option"
  connection_id :: "string option"
  thread_id :: string
  initiator :: initiator
  role :: role
  state :: "exchange_state option"
  presentation_proposal_dict :: "proposal_message option"
  presentation_request :: "proof_request option"
  presentation :: "indy_proof option"
  verified :: "py_value option"
  auto_present :: "bool option"

record credential =
  schema_id :: string
  cred_def_id :: string
  rev_reg_id :: "string option"
  cred_rev_id :: "string option"

record requested_cred =
  cred_id :: string

record requested_credentials =
  rc_requested_attributes :: "(string \<times> requested_cred) list"
  rc_requested_predicates :: "(string \<times> requested_cred) list"

text \<open>One entry of the local dictionary \<open>requested_referents\<close>.\<close>

record referented =
  ref_cred_id :: string
  ref_non_revoked :: "non_revoked_interval option"

type_synonym revoc_reg_delta_entry = "string \<times> string \<times> string \<times> int"

type_synonym revocation_states = "(string \<times> (int \<times> string) list) list"

section \<open>The outside world of the manager\<close>

text \<open>
  The log holds every call of a collaborator in the order the manager issues it, and
  every record the storage has persisted.
\<close>

datatype event =
    GetCredential string
  | GetSchema string
  | GetCredentialDefinition string
  | GetRevocRegDef string
  | GetRevocRegDelta string int int
  | RetrieveTails string
  | CreateRevocationState string "string option" string int
  | HolderCreatePresentation "proof_request option" revocation_states
  | VerifierVerifyPresentation
  | IndyProofRequest
  | Persisted exchange_record string
  | SendReply ack_message

record world =
  store :: "(nat \<times> exchange_record) list"
  journal :: "event list"
  local_tails :: "string list"

text \<open>
  The holder, the ledger, the verifier, the responder, the revocation registry objects,
  the proposal preview's \<open>indy_proof_request\<close> and the clock are injected into the
  manager; none of them is under \<open>src/\<close>.  Each is a parameter.  \<open>storage_fault\<close> is the
  storage engine's power to refuse a write.
\<close>

record env =
  holder_get_credential :: "string \<Rightarrow> error + credential"
  holder_create_presentation ::
    "proof_request option \<Rightarrow> requested_credentials \<Rightarrow> (string \<times> string) list \<Rightarrow>
     (string \<times> string) list \<Rightarrow> revocation_states \<Rightarrow> error + indy_proof"
  ledger_get_schema :: "string \<Rightarrow> error + string"
  ledger_get_credential_definition :: "string \<Rightarrow> error + string"
  ledger_get_revoc_reg_def :: "string \<Rightarrow> error + string"
  ledger_get_revoc_reg_delta :: "string \<Rightarrow> int \<Rightarrow> int \<Rightarrow> error + (string \<times> int)"
  retrieve_tails :: "string \<Rightarrow> error + unit"
  create_revocation_state :: "string \<Rightarrow> string option \<Rightarrow> string \<Rightarrow> int \<Rightarrow> error + string"
  verifier_verify_presentation ::
    "proof_request option \<Rightarrow> indy_proof \<Rightarrow> (string \<times> string) list \<Rightarrow>
     (string \<times> string) list \<Rightarrow> error + bool"
  responder_send_reply :: "(ack_message \<Rightarrow> error + unit) option"
  indy_proof_request ::
    "presentation_preview \<Rightarrow> string option \<Rightarrow> string option \<Rightarrow> string option \<Rightarrow>
     error + proof_request"
  storage_fault :: "exchange_record \<Rightarrow> error option"
  current_time :: int

definition call :: "event \<Rightarrow> error + 'a \<Rightarrow> (world, 'a) io" where
  "call ev r = (\<lambda>w. (r, w\<lparr>journal := journal w @ [ev]\<rparr>))"

text \<open>The events a computation added to the log.\<close>

definition new_events :: "world \<Rightarrow> world \<Rightarrow> event list" where
  "new_events w w' = drop (length (journal w)) (journal w')"

subsection \<open>The record store\<close>

definition fresh_id :: "(nat \<times> exchange_record) list \<Rightarrow> nat" where
  "fresh_id st = Suc (fold max (map fst st) 0)"

text \<open>
  Modelled from the spec: \<open>V10PresentationExchange.save\<close> is not under \<open>src/\<close>.  Section
  4.1: \<open>save(record, reason)\<close> persists the current field values and is idempotent on
  retry; a record has an opaque record id.  A record without an id gets a fresh one; the
  stored values under the record's id are replaced.
\<close>

definition save :: "env \<Rightarrow> exchange_record \<Rightarrow> string \<Rightarrow> (world, exchange_record) io" where
  "save env r reason =
     (\<lambda>w. case storage_fault env r of
        Some e \<Rightarrow> (Inl e, w)
      | None \<Rightarrow>
          (let i = (case presentation_exchange_id r of None \<Rightarrow> fresh_id (store w) | Some j \<Rightarrow> j);
               r' = r\<lparr>presentation_exchange_id := Some i\<rparr>
           in (Inr r', w\<lparr>store := AList.update i r' (store w),
                          journal := journal w @ [Persisted r' reason]\<rparr>)))"

text \<open>
  Modelled from the spec: \<open>V10PresentationExchange.retrieve_by_tag_filter\<close> is not under
  \<open>src/\<close>.  Section 4.1: retrieval by thread id and connection filter returns exactly
  one record or fails with NotFound or Ambiguous.
\<close>

definition matches_tags :: "string \<Rightarrow> string option \<Rightarrow> exchange_record \<Rightarrow> bool" where
  "matches_tags thid conn r =
     (thread_id r = thid \<and> (case conn of None \<Rightarrow> True | Some c \<Rightarrow> connection_id r = Some c))"

definition retrieve_by_tag_filter ::
  "string \<Rightarrow> string option \<Rightarrow> (world, exchange_record) io" where
  "retrieve_by_tag_filter thid conn =
     (\<lambda>w. case filter (matches_tags thid conn) (map snd (store w)) of
        [] \<Rightarrow> (Inl StorageNotFoundError, w)
      | [r] \<Rightarrow> (Inr r, w)
      | _ \<Rightarrow> (Inl StorageDuplicateError, w))"

subsection \<open>The proposal\<close>

text \<open>
  Modelled from the spec: \<open>PresentationProposal.deserialize\<close> is not under \<open>src/\<close>.
  Section 4.2: a bound request fails with \<open>ProtocolError\<close> if no proposal is stored.
\<close>

definition deserialize :: "proposal_message option \<Rightarrow> error + proposal_message" where
  "deserialize d = (case d of None \<Rightarrow> Inl ProtocolError | Some p \<Rightarrow> Inr p)"

text \<open>
  Modelled from the spec: \<open>PresentationPreview.has_attr_spec\<close> is not under \<open>src/\<close>.
  Section 4.4: the stored proposal preview contains an attribute specification with that
  exact (cred_def_id, name, value) triple.
\<close>

definition has_attr_spec :: "presentation_preview \<Rightarrow> string \<Rightarrow> string \<Rightarrow> string \<Rightarrow> bool" where
  "has_attr_spec preview cd n v =
     list_ex (\<lambda>a. as_cred_def_id a = Some cd \<and> as_name a = n \<and> as_value a = Some v)
       (attributes preview)"

section \<open>Operations of the presentation manager\<close>

subsection \<open>Creating and receiving proposals and requests\<close>

definition create_exchange_for_proposal ::
  "env \<Rightarrow> string \<Rightarrow> proposal_message \<Rightarrow> bool option \<Rightarrow> (world, exchange_record) io" where
  "create_exchange_for_proposal env conn msg auto =
     save env
       \<lparr>presentation_exchange_id = None, connection_id = Some conn,
        thread_id = proposal_thread_id msg, initiator = INITIATOR_SELF, role = ROLE_PROVER,
        state = Some STATE_PROPOSAL_SENT, presentation_proposal_dict = Some msg,
        presentation_request = None, presentation = None, verified = None,
        auto_present = auto\<rparr>
       ''create presentation proposal''"

text \<open>
  The message and the connection record come from the request context;
  \<open>connection_record.connection_id\<close> fails on a context without a connection record.
\<close>

definition receive_proposal ::
  "env \<Rightarrow> string option \<Rightarrow> proposal_message \<Rightarrow> (world, exchange_record) io" where
  "receive_proposal env connection_record msg =
     (case connection_record of
        None \<Rightarrow> raise AttributeError
      | Some conn \<Rightarrow>
          save env
            \<lparr>presentation_exchange_id = None, connection_id = Some conn,
             thread_id = proposal_thread_id msg, initiator = INITIATOR_EXTERNAL,
             role = ROLE_VERIFIER, state = Some STATE_PROPOSAL_RECEIVED,
             presentation_proposal_dict = Some msg, presentation_request = None,
             presentation = None, verified = None, auto_present = None\<rparr>
            ''receive presentation request'')"

definition create_bound_request ::
  "env \<Rightarrow> exchange_record \<Rightarrow> string option \<Rightarrow> string option \<Rightarrow> string option \<Rightarrow>
   string option \<Rightarrow> (world, exchange_record \<times> request_message) io" where
  "create_bound_request env r name version nonce comment =
     bnd (lift (deserialize (presentation_proposal_dict r))) (\<lambda>proposal.
     bnd (call IndyProofRequest
            (indy_proof_request env (presentation_proposal proposal) name version nonce))
       (\<lambda>indy_request.
     (let presentation_request_message =
            \<lparr>request_thread_id = thread_id r, request_comment = comment,
             request_presentations_attach = indy_request\<rparr>
      in bnd (save env
                (r\<lparr>thread_id := request_thread_id presentation_request_message,
                   state := Some STATE_REQUEST_SENT,
                   presentation_request := Some indy_request\<rparr>)
                ''create (bound) presentation request'') (\<lambda>saved.
         ret (saved, presentation_request_message)))))"

definition create_exchange_for_request ::
  "env \<Rightarrow> string \<Rightarrow> request_message \<Rightarrow> (world, exchange_record) io" where
  "create_exchange_for_request env conn msg =
     save env
       \<lparr>presentation_exchange_id = None, connection_id = Some conn,
        thread_id = request_thread_id msg, initiator = INITIATOR_SELF, role = ROLE_VERIFIER,
        state = Some STATE_REQUEST_SENT, presentation_proposal_dict = None,
        presentation_request = Some (request_presentations_attach msg),
        presentation = None, verified = None, auto_present = None\<rparr>
       ''create (free) presentation request''"

definition receive_request :: "env \<Rightarrow> exchange_record \<Rightarrow> (world, exchange_record) io" where
  "receive_request env r =
     save env (r\<lparr>state := Some STATE_REQUEST_RECEIVED\<rparr>) ''receive presentation request''"

subsection \<open>Creating a presentation\<close>

text \<open>
  The two loops that fill \<open>requested_referents\<close>: \<open>selected\<close> is the dictionary of the
  requested credentials that is iterated, \<open>items\<close> the dictionary of the stored proof
  request under the same key (absent when the record has no proof request).  Assigning
  to a key a dictionary already has keeps the key's place.
\<close>

fun collect_referents ::
  "(string \<times> requested_item) list option \<Rightarrow> (string \<times> requested_cred) list \<Rightarrow> string list \<Rightarrow>
   (string \<times> referented) list \<Rightarrow> error + (string \<times> referented) list" where
  "collect_referents items selected [] acc = Inr acc"
| "collect_referents items selected (referent # rest) acc =
     (case map_of selected referent of
        None \<Rightarrow> Inl (KeyError referent)
      | Some sel \<Rightarrow>
          (case items of
             None \<Rightarrow> Inl TypeError
           | Some its \<Rightarrow>
               (case map_of its referent of
                  None \<Rightarrow> Inl (KeyError referent)
                | Some item \<Rightarrow>
                    collect_referents items selected rest
                      (AList.update referent
                         \<lparr>ref_cred_id = cred_id sel, ref_non_revoked = item_non_revoked item\<rparr>
                         acc))))"

definition extract_referents ::
  "proof_request option \<Rightarrow> requested_credentials \<Rightarrow> error + (string \<times> referented) list" where
  "extract_referents pr rc =
     (case collect_referents (map_option requested_attributes pr) (rc_requested_attributes rc)
             (map fst (rc_requested_attributes rc)) [] of
        Inl e \<Rightarrow> Inl e
      | Inr refs \<Rightarrow>
          collect_referents (map_option requested_predicates pr) (rc_requested_predicates rc)
            (map fst (rc_requested_predicates rc)) refs)"

text \<open>
  \<open>if key not in d: d[key] = await get(key)\<close>, the pattern of every ledger and holder
  lookup of \<open>create_presentation\<close>: the call is issued only when the dictionary has no
  entry under the key.
\<close>

definition fetch_missing ::
  "event \<Rightarrow> error + 'v \<Rightarrow> string \<Rightarrow> (string \<times> 'v) list \<Rightarrow> (world, (string \<times> 'v) list) io" where
  "fetch_missing ev get k d =
     (if map_of d k = None then bnd (call ev get) (\<lambda>v. ret (AList.update k v d)) else ret d)"

text \<open>The body of the loop over \<open>requested_referents\<close> that resolves the credentials.\<close>

definition get_credential ::
  "env \<Rightarrow> referented \<Rightarrow> (string \<times> credential) list \<Rightarrow> (world, (string \<times> credential) list) io" where
  "get_credential env r credentials =
     fetch_missing (GetCredential (ref_cred_id r)) (holder_get_credential env (ref_cred_id r))
       (ref_cred_id r) credentials"

fun get_credentials ::
  "env \<Rightarrow> referented list \<Rightarrow> (string \<times> credential) list \<Rightarrow>
   (world, (string \<times> credential) list) io" where
  "get_credentials env [] credentials = ret credentials"
| "get_credentials env (r # rs) credentials =
     bnd (get_credential env r credentials) (\<lambda>credentials'. get_credentials env rs credentials')"

record ledger_objects =
  schemas :: "(string \<times> string) list"
  credential_definitions :: "(string \<times> string) list"
  revocation_registries :: "(string \<times> string) list"

text \<open>The body of the loop over \<open>credentials.values()\<close>.\<close>

definition resolve_credential ::
  "env \<Rightarrow> credential \<Rightarrow> ledger_objects \<Rightarrow> (world, ledger_objects) io" where
  "resolve_credential env c objs =
     bnd (fetch_missing (GetSchema (schema_id c)) (ledger_get_schema env (schema_id c))
            (schema_id c) (schemas objs)) (\<lambda>schemas'.
     bnd (fetch_missing (GetCredentialDefinition (cred_def_id c))
            (ledger_get_credential_definition env (cred_def_id c))
            (cred_def_id c) (credential_definitions objs)) (\<lambda>credential_definitions'.
     bnd (case rev_reg_id c of
            None \<Rightarrow> ret (revocation_registries objs)
          | Some rid \<Rightarrow>
              if rid = [] then ret (revocation_registries objs)
              else fetch_missing (GetRevocRegDef rid) (ledger_get_revoc_reg_def env rid)
                     rid (revocation_registries objs)) (\<lambda>revocation_registries'.
     ret \<lparr>schemas = schemas', credential_definitions = credential_definitions',
          revocation_registries = revocation_registries'\<rparr>)))"

fun resolve_credentials ::
  "env \<Rightarrow> credential list \<Rightarrow> ledger_objects \<Rightarrow> (world, ledger_objects) io" where
  "resolve_credentials env [] objs = ret objs"
| "resolve_credentials env (c # cs) objs =
     bnd (resolve_credential env c objs) (\<lambda>objs'. resolve_credentials env cs objs')"

text \<open>
  After the loop the variable \<open>credential\<close> is bound to the last value of
  \<open>credentials\<close>; it is unbound when the dictionary is empty.
\<close>

definition leftover_credential :: "(string \<times> credential) list \<Rightarrow> credential option" where
  "leftover_credential credentials =
     (if credentials = [] then None else Some (snd (last credentials)))"

text \<open>\<open>str\<close> of an integer, as the f-string of the key formats it.\<close>

definition digit_char :: "nat \<Rightarrow> char" where
  "digit_char d = ''0123456789'' ! d"

function str_nat :: "nat \<Rightarrow> string" where
  "str_nat n = (if n < 10 then [digit_char n] else str_nat (n div 10) @ [digit_char (n mod 10)])"
  by pat_completeness auto
termination
  by (relation "measure (\<lambda>n. n)") auto

declare str_nat.simps [simp del]

definition str_int :: "int \<Rightarrow> string" where
  "str_int i = (if i < 0 then CHR ''-'' # str_nat (nat (- i)) else str_nat (nat i))"

definition revoc_reg_delta_key :: "string \<Rightarrow> int \<Rightarrow> int \<Rightarrow> string" where
  "revoc_reg_delta_key rid f t = rid @ ''_'' @ str_int f @ ''_'' @ str_int t"

text \<open>
  The body of the loop over \<open>requested_referents.values()\<close>.  The state of the loop is
  the request-level dictionary \<open>non_revoked_timespan\<close>, which the loop writes to, and
  \<open>revoc_reg_deltas\<close>.  The referent's own interval decides only whether the referent is
  processed: the bounds tested, defaulted and read are those of \<open>non_revoked_timespan\<close>.
\<close>

definition fetch_delta ::
  "env \<Rightarrow> (string \<times> credential) list \<Rightarrow> referented \<Rightarrow>
   non_revoked_interval option \<times> (string \<times> revoc_reg_delta_entry) list \<Rightarrow>
   (world, non_revoked_interval option \<times> (string \<times> revoc_reg_delta_entry) list) io" where
  "fetch_delta env credentials r st =
     (case st of (non_revoked_timespan, revoc_reg_deltas) \<Rightarrow>
      (case map_of credentials (ref_cred_id r) of
         None \<Rightarrow> raise (KeyError (ref_cred_id r))
       | Some c \<Rightarrow>
           (case rev_reg_id c of
              None \<Rightarrow> ret st
            | Some rid \<Rightarrow>
                if rid = [] then ret st
                else if \<not> truthy_interval
                            (case ref_non_revoked r of
                               Some own \<Rightarrow> Some own
                             | None \<Rightarrow> non_revoked_timespan)
                then ret st
                else
                  (case non_revoked_timespan of
                     None \<Rightarrow> raise TypeError
                   | Some i \<Rightarrow>
                       (let f = (case nr_from i of None \<Rightarrow> 0 | Some x \<Rightarrow> x);
                            t = (case nr_to i of None \<Rightarrow> current_time env | Some x \<Rightarrow> x);
                            i' = i\<lparr>nr_from := Some f, nr_to := Some t\<rparr>;
                            key = revoc_reg_delta_key rid f t
                        in if map_of revoc_reg_deltas key \<noteq> None
                           then ret (Some i', revoc_reg_deltas)
                           else bnd (call (GetRevocRegDelta rid f t)
                                       (ledger_get_revoc_reg_delta env rid f t))
                                  (\<lambda>(delta, delta_timestamp).
                                     ret (Some i',
                                          AList.update key
                                            (rid, ref_cred_id r, delta, delta_timestamp)
                                            revoc_reg_deltas)))))))"

fun fetch_deltas ::
  "env \<Rightarrow> (string \<times> credential) list \<Rightarrow> referented list \<Rightarrow>
   non_revoked_interval option \<times> (string \<times> revoc_reg_delta_entry) list \<Rightarrow>
   (world, non_revoked_interval option \<times> (string \<times> revoc_reg_delta_entry) list) io" where
  "fetch_deltas env credentials [] st = ret st"
| "fetch_deltas env credentials (r # rs) st =
     bnd (fetch_delta env credentials r st) (\<lambda>st'. fetch_deltas env credentials rs st')"

text \<open>
  Whether a registry has its tails file locally is part of the world; retrieving the
  tails makes it so.
\<close>

definition ensure_tails :: "env \<Rightarrow> string \<Rightarrow> (world, unit) io" where
  "ensure_tails env rid =
     (\<lambda>w. if rid \<in> set (local_tails w) then (Inr (), w)
          else (case call (RetrieveTails rid) (retrieve_tails env rid) w of
                  (Inl e, w') \<Rightarrow> (Inl e, w')
                | (Inr _, w') \<Rightarrow> (Inr (), w'\<lparr>local_tails := local_tails w' @ [rid]\<rparr>)))"

text \<open>
  The body of the loop over \<open>revoc_reg_deltas.values()\<close>.  \<open>leftover\<close> is the variable
  \<open>credential\<close> as the earlier loop left it.
\<close>

definition compute_revocation_state ::
  "env \<Rightarrow> ledger_objects \<Rightarrow> credential option \<Rightarrow> revoc_reg_delta_entry \<Rightarrow>
   revocation_states \<Rightarrow> (world, revocation_states) io" where
  "compute_revocation_state env objs leftover entry revocation_states =
     (case entry of (rid, credential_id, delta, delta_timestamp) \<Rightarrow>
      (let states1 = (if map_of revocation_states rid = None
                      then AList.update rid [] revocation_states else revocation_states)
       in case map_of (revocation_registries objs) rid of
            None \<Rightarrow> raise (KeyError rid)
          | Some rev_reg \<Rightarrow>
              bnd (ensure_tails env rid) (\<lambda>_.
              (case leftover of
                 None \<Rightarrow> raise UnboundLocalError
               | Some credential \<Rightarrow>
                   bnd (call (CreateRevocationState rid (cred_rev_id credential) delta
                                delta_timestamp)
                          (create_revocation_state env rev_reg (cred_rev_id credential) delta
                             delta_timestamp)) (\<lambda>s.
                   ret (AList.update rid
                          (AList.update delta_timestamp s
                             (case map_of states1 rid of None \<Rightarrow> [] | Some m \<Rightarrow> m))
                          states1))))))"

fun compute_revocation_states ::
  "env \<Rightarrow> ledger_objects \<Rightarrow> credential option \<Rightarrow> revoc_reg_delta_entry list \<Rightarrow>
   revocation_states \<Rightarrow> (world, revocation_states) io" where
  "compute_revocation_states env objs leftover [] revocation_states = ret revocation_states"
| "compute_revocation_states env objs leftover (e # es) revocation_states =
     bnd (compute_revocation_state env objs leftover e revocation_states)
       (\<lambda>states'. compute_revocation_states env objs leftover es states')"

text \<open>
  \<open>non_revoked_timespan\<close> is the dictionary stored in the record's proof request, so the
  proof request handed to the holder and saved with the record carries what the loop
  wrote to it.
\<close>

definition create_presentation ::
  "env \<Rightarrow> exchange_record \<Rightarrow> requested_credentials \<Rightarrow> string option \<Rightarrow>
   (world, exchange_record \<times> presentation_message) io" where
  "create_presentation env r requested comment =
     bnd (lift (extract_referents (presentation_request r) requested)) (\<lambda>requested_referents.
     bnd (get_credentials env (map snd requested_referents) []) (\<lambda>credentials.
     bnd (resolve_credentials env (map snd credentials)
            \<lparr>schemas = [], credential_definitions = [], revocation_registries = []\<rparr>) (\<lambda>objs.
     (case presentation_request r of
        None \<Rightarrow> raise AttributeError
      | Some pr \<Rightarrow>
          bnd (fetch_deltas env credentials (map snd requested_referents) (non_revoked pr, []))
            (\<lambda>(non_revoked_timespan, revoc_reg_deltas).
          bnd (compute_revocation_states env objs (leftover_credential credentials)
                 (map snd revoc_reg_deltas) []) (\<lambda>revocation_states.
          bnd (call (HolderCreatePresentation
                       (Some (pr\<lparr>non_revoked := non_revoked_timespan\<rparr>)) revocation_states)
                 (holder_create_presentation env
                    (Some (pr\<lparr>non_revoked := non_revoked_timespan\<rparr>)) requested
                    (schemas objs) (credential_definitions objs) revocation_states))
            (\<lambda>indy_proof.
          bnd (save env
                 (r\<lparr>state := Some STATE_PRESENTATION_SENT, presentation := Some indy_proof,
                    presentation_request := Some (pr\<lparr>non_revoked := non_revoked_timespan\<rparr>)\<rparr>)
                 ''create presentation'') (\<lambda>saved.
          ret (saved,
               \<lparr>presentation_thread_id = thread_id r, presentation_comment = comment,
                presentations_attach = indy_proof\<rparr>)))))))))"

subsection \<open>Receiving a presentation\<close>

text \<open>Indexing a Python list: a negative index counts from the end.\<close>

definition py_index :: "'a list \<Rightarrow> int \<Rightarrow> error + 'a" where
  "py_index xs i =
     (if 0 \<le> i \<and> i < int (length xs) then Inr (xs ! nat i)
      else if i < 0 \<and> - int (length xs) \<le> i then Inr (xs ! nat (int (length xs) + i))
      else Inl IndexError)"

text \<open>
  What the loop reads for one revealed attribute: the name from the stored proof
  request, the raw value, and the credential definition id of the identifier at
  \<open>sub_proof_index\<close>; in the order the source evaluates them.
\<close>

definition revealed_triple ::
  "proof_request option \<Rightarrow> indy_proof \<Rightarrow> string \<times> revealed_attr \<Rightarrow>
   error + (string \<times> string \<times> string)" where
  "revealed_triple proof_req pres x =
     (case x of (reft, attr) \<Rightarrow>
      (case proof_req of
         None \<Rightarrow> Inl TypeError
       | Some pr \<Rightarrow>
           (case map_of (requested_attributes pr) reft of
              None \<Rightarrow> Inl (KeyError reft)
            | Some item \<Rightarrow>
                (case item_name item of
                   None \<Rightarrow> Inl (KeyError ''name'')
                 | Some name \<Rightarrow>
                     (case py_index (identifiers pres) (sub_proof_index attr) of
                        Inl e \<Rightarrow> Inl e
                      | Inr ident \<Rightarrow> Inr (id_cred_def_id ident, name, raw attr))))))"

fun check_revealed_attrs ::
  "presentation_preview \<Rightarrow> proof_request option \<Rightarrow> indy_proof \<Rightarrow>
   (string \<times> revealed_attr) list \<Rightarrow> error + unit" where
  "check_revealed_attrs preview proof_req pres [] = Inr ()"
| "check_revealed_attrs preview proof_req pres (x # xs) =
     (case revealed_triple proof_req pres x of
        Inl e \<Rightarrow> Inl e
      | Inr (cd, name, v) \<Rightarrow>
          if \<not> has_attr_spec preview cd name v
          then Inl (PresentationManagerError
                      (''Presentation '' @ name @ ''='' @ v @ '' mismatches proposal value''))
          else check_revealed_attrs preview proof_req pres xs)"

definition receive_presentation ::
  "env \<Rightarrow> string option \<Rightarrow> presentation_message \<Rightarrow> (world, exchange_record) io" where
  "receive_presentation env connection_record msg =
     bnd (retrieve_by_tag_filter (presentation_thread_id msg) connection_record) (\<lambda>r.
     bnd (case presentation_proposal_dict r of
            None \<Rightarrow> ret ()
          | Some d \<Rightarrow>
              bnd (lift (deserialize (Some d))) (\<lambda>exchange_pres_proposal.
              lift (check_revealed_attrs (presentation_proposal exchange_pres_proposal)
                      (presentation_request r) (presentations_attach msg)
                      (revealed_attrs (presentations_attach msg))))) (\<lambda>_.
     save env
       (r\<lparr>presentation := Some (presentations_attach msg),
          state := Some STATE_PRESENTATION_RECEIVED\<rparr>)
       ''receive presentation''))"

subsection \<open>Verifying a presentation\<close>

text \<open>
  The two loops of \<open>verify_presentation\<close> over \<open>schema_ids\<close> and
  \<open>credential_definition_ids\<close>: one ledger call for every element of the list.
\<close>

fun fetch_each ::
  "(string \<Rightarrow> event) \<Rightarrow> (string \<Rightarrow> error + string) \<Rightarrow> string list \<Rightarrow> (string \<times> string) list \<Rightarrow>
   (world, (string \<times> string) list) io" where
  "fetch_each ev get [] acc = ret acc"
| "fetch_each ev get (x # xs) acc =
     bnd (call (ev x) (get x)) (\<lambda>v. fetch_each ev get xs (AList.update x v acc))"

text \<open>\<open>json.dumps\<close> of a boolean.\<close>

definition json_dumps :: "bool \<Rightarrow> string" where
  "json_dumps b = (if b then ''true'' else ''false'')"

definition send_presentation_ack :: "env \<Rightarrow> exchange_record \<Rightarrow> (world, unit) io" where
  "send_presentation_ack env r =
     (case responder_send_reply env of
        Some send_reply \<Rightarrow>
          call (SendReply \<lparr>ack_thread_id = thread_id r\<rparr>) (send_reply \<lparr>ack_thread_id = thread_id r\<rparr>)
      | None \<Rightarrow> ret ())"

definition verify_presentation :: "env \<Rightarrow> exchange_record \<Rightarrow> (world, exchange_record) io" where
  "verify_presentation env r =
     (case presentation r of
        None \<Rightarrow> raise TypeError
      | Some indy_proof \<Rightarrow>
          bnd (fetch_each GetSchema (ledger_get_schema env)
                 (map id_schema_id (identifiers indy_proof)) []) (\<lambda>schemas.
          bnd (fetch_each GetCredentialDefinition (ledger_get_credential_definition env)
                 (map id_cred_def_id (identifiers indy_proof)) []) (\<lambda>credential_definitions.
          bnd (call VerifierVerifyPresentation
                 (verifier_verify_presentation env (presentation_request r) indy_proof schemas
                    credential_definitions)) (\<lambda>result.
          bnd (save env
                 (r\<lparr>verified := Some (PyStr (json_dumps result)), state := Some STATE_VERIFIED\<rparr>)
                 ''verify presentation'') (\<lambda>saved.
          bnd (send_presentation_ack env saved) (\<lambda>_. ret saved))))))"

definition receive_presentation_ack ::
  "env \<Rightarrow> string option \<Rightarrow> ack_message \<Rightarrow> (world, exchange_record) io" where
  "receive_presentation_ack env connection_record msg =
     (case connection_record of
        None \<Rightarrow> raise AttributeError
      | Some conn \<Rightarrow>
          bnd (retrieve_by_tag_filter (ack_thread_id msg) (Some conn)) (\<lambda>r.
          save env (r\<lparr>state := Some STATE_PRESENTATION_ACKED\<rparr>) ''receive presentation ack''))"

section \<open>Reading the log\<close>

text \<open>The ledger calls, by kind, in the order they were issued.\<close>

fun schema_fetch :: "event \<Rightarrow> string option" where
  "schema_fetch (GetSchema i) = Some i"
| "schema_fetch _ = None"

fun cred_def_fetch :: "event \<Rightarrow> string option" where
  "cred_def_fetch (GetCredentialDefinition i) = Some i"
| "cred_def_fetch _ = None"

fun rev_reg_def_fetch :: "event \<Rightarrow> string option" where
  "rev_reg_def_fetch (GetRevocRegDef i) = Some i"
| "rev_reg_def_fetch _ = None"

fun delta_fetch :: "event \<Rightarrow> (string \<times> int \<times> int) option" where
  "delta_fetch (GetRevocRegDelta rid f t) = Some (rid, f, t)"
| "delta_fetch _ = None"

text \<open>A revocation state computed: the registry id and the credential revocation id used.\<close>

fun state_computation :: "event \<Rightarrow> (string \<times> string option) option" where
  "state_computation (CreateRevocationState rid crid delta ts) = Some (rid, crid)"
| "state_computation _ = None"

fun reply_sent :: "event \<Rightarrow> ack_message option" where
  "reply_sent (SendReply m) = Some m"
| "reply_sent _ = None"

fun persisted :: "event \<Rightarrow> exchange_record option" where
  "persisted (Persisted r reason) = Some r"
| "persisted _ = None"

text \<open>The part of \<open>create_presentation\<close> that issues an event.\<close>

datatype stage = CredentialStage | LedgerStage | DeltaStage | StateStage | FinalStage | NoStage

fun stage_of :: "event \<Rightarrow> stage" where
  "stage_of (GetCredential _) = CredentialStage"
| "stage_of (GetSchema _) = LedgerStage"
| "stage_of (GetCredentialDefinition _) = LedgerStage"
| "stage_of (GetRevocRegDef _) = LedgerStage"
| "stage_of (GetRevocRegDelta _ _ _) = DeltaStage"
| "stage_of (RetrieveTails _) = StateStage"
| "stage_of (CreateRevocationState _ _ _ _) = StateStage"
| "stage_of (HolderCreatePresentation _ _) = FinalStage"
| "stage_of (Persisted _ _) = FinalStage"
| "stage_of _ = NoStage"

definition schema_fetches :: "event list \<Rightarrow> string list" where
  "schema_fetches evs = List.map_filter schema_fetch evs"

definition cred_def_fetches :: "event list \<Rightarrow> string list" where
  "cred_def_fetches evs = List.map_filter cred_def_fetch evs"

definition rev_reg_def_fetches :: "event list \<Rightarrow> string list" where
  "rev_reg_def_fetches evs = List.map_filter rev_reg_def_fetch evs"

definition delta_fetches :: "event list \<Rightarrow> (string \<times> int \<times> int) list" where
  "delta_fetches evs = List.map_filter delta_fetch evs"

definition state_computations :: "event list \<Rightarrow> (string \<times> string option) list" where
  "state_computations evs = List.map_filter state_computation evs"

definition replies_sent :: "event list \<Rightarrow> ack_message list" where
  "replies_sent evs = List.map_filter reply_sent evs"

definition records_persisted :: "event list \<Rightarrow> exchange_record list" where
  "records_persisted evs = List.map_filter persisted evs"

text \<open>
  The bounds the loop reads from the request-level dictionary: \<open>from\<close> and \<open>to\<close> where
  the dictionary has them, else the defaults the loop writes (0 and the current time).
\<close>

definition window_bounds :: "int \<Rightarrow> non_revoked_interval \<Rightarrow> int \<times> int" where
  "window_bounds now i =
     (case nr_from i of None \<Rightarrow> 0 | Some x \<Rightarrow> x, case nr_to i of None \<Rightarrow> now | Some x \<Rightarrow> x)"

text \<open>
  The interval that decides whether a referent is processed: its own, else the
  request-level one.
\<close>

definition deciding_interval ::
  "referented \<Rightarrow> non_revoked_interval option \<Rightarrow> non_revoked_interval option" where
  "deciding_interval r request_level =
     (case ref_non_revoked r of Some own \<Rightarrow> Some own | None \<Rightarrow> request_level)"

text \<open>The registry ids of the credentials that carry one (\<open>if credential["rev_reg_id"]\<close>).\<close>

definition revocable_ids :: "credential list \<Rightarrow> string set" where
  "revocable_ids cs = {rid. rid \<noteq> [] \<and> (\<exists>c \<in> set cs. rev_reg_id c = Some rid)}"

section \<open>The state machine of section 4.5\<close>

text \<open>
  Modelled from the spec: the order of the states on the prover path (PROPOSAL_SENT,
  REQUEST_RECEIVED, PRESENTATION_SENT) and on the verifier path (PROPOSAL_RECEIVED,
  REQUEST_SENT, PRESENTATION_RECEIVED, VERIFIED, PRESENTATION_ACKED) of section 4.5.  A
  record that has no state yet (a request received without a proposal) comes before all
  of them.
\<close>

definition prover_path :: "exchange_state list" where
  "prover_path = [STATE_PROPOSAL_SENT, STATE_REQUEST_RECEIVED, STATE_PRESENTATION_SENT]"

definition verifier_path :: "exchange_state list" where
  "verifier_path =
     [STATE_PROPOSAL_RECEIVED, STATE_REQUEST_SENT, STATE_PRESENTATION_RECEIVED, STATE_VERIFIED,
      STATE_PRESENTATION_ACKED]"

fun state_rank :: "exchange_state option \<Rightarrow> nat" where
  "state_rank None = 0"
| "state_rank (Some STATE_PROPOSAL_SENT) = 1"
| "state_rank (Some STATE_PROPOSAL_RECEIVED) = 1"
| "state_rank (Some STATE_REQUEST_SENT) = 2"
| "state_rank (Some STATE_REQUEST_RECEIVED) = 2"
| "state_rank (Some STATE_PRESENTATION_SENT) = 3"
| "state_rank (Some STATE_PRESENTATION_RECEIVED) = 3"
| "state_rank (Some STATE_VERIFIED) = 4"
| "state_rank (Some STATE_PRESENTATION_ACKED) = 5"

datatype operation =
    CreateBoundRequest
  | ReceiveRequest
  | CreatePresentation
  | ReceivePresentation
  | VerifyPresentation
  | ReceivePresentationAck

text \<open>
  Modelled from the spec: the state a record is in when an operation is applied to it
  in a valid sequence (sections 4.2, 4.5 and the end-to-end scenarios of section 8).
\<close>

fun expected_prior :: "operation \<Rightarrow> exchange_state option list" where
  "expected_prior CreateBoundRequest = [Some STATE_PROPOSAL_RECEIVED]"
| "expected_prior ReceiveRequest = [None, Some STATE_PROPOSAL_SENT]"
| "expected_prior CreatePresentation = [Some STATE_REQUEST_RECEIVED]"
| "expected_prior ReceivePresentation = [Some STATE_REQUEST_SENT]"
| "expected_prior VerifyPresentation = [Some STATE_PRESENTATION_RECEIVED]"
| "expected_prior ReceivePresentationAck = [Some STATE_VERIFIED, Some STATE_PRESENTATION_SENT]"

text \<open>
  One valid transition: an operation of the manager, applied to a record in a state the
  operation expects, returns the record \<open>r'\<close>.  \<open>receive_presentation\<close> and
  \<open>receive_presentation_ack\<close> work on the record they retrieve.
\<close>

inductive valid_transition :: "env \<Rightarrow> exchange_record \<Rightarrow> exchange_record \<Rightarrow> bool" for env where
  bound_request:
    "state r \<in> set (expected_prior CreateBoundRequest) \<Longrightarrow>
     create_bound_request env r name version nonce comment w = (Inr (r', msg), w') \<Longrightarrow>
     valid_transition env r r'"
| request_received:
    "state r \<in> set (expected_prior ReceiveRequest) \<Longrightarrow>
     receive_request env r w = (Inr r', w') \<Longrightarrow>
     valid_transition env r r'"
| presentation_created:
    "state r \<in> set (expected_prior CreatePresentation) \<Longrightarrow>
     create_presentation env r requested comment w = (Inr (r', pmsg), w') \<Longrightarrow>
     valid_transition env r r'"
| presentation_received:
    "retrieve_by_tag_filter (presentation_thread_id pres) conn w = (Inr r, w) \<Longrightarrow>
     state r \<in> set (expected_prior ReceivePresentation) \<Longrightarrow>
     receive_presentation env conn pres w = (Inr r', w') \<Longrightarrow>
     valid_transition env r r'"
| presentation_verified:
    "state r \<in> set (expected_prior VerifyPresentation) \<Longrightarrow>
     verify_presentation env r w = (Inr r', w') \<Longrightarrow>
     valid_transition env r r'"
| ack_received:
    "retrieve_by_tag_filter (ack_thread_id ack) (Some c) w = (Inr r, w) \<Longrightarrow>
     state r \<in> set (expected_prior ReceivePresentationAck) \<Longrightarrow>
     receive_presentation_ack env (Some c) ack w = (Inr r', w') \<Longrightarrow>
     valid_transition env r r'"

section \<open>Example inputs\<close>

text \<open>
  A storage that has no published credential definition record, and a revocation
  subsystem that accepts every id.
\<close>

definition demo_route_env :: route_env where
  "demo_route_env =
     \<lparr>search_records = (\<lambda>_. Inr []),
      init_issuer_registry = (\<lambda>_ _ _. Inl RevocationNotSupportedError),
      get_active_issuer_revocation_record =
        (\<lambda>i. Inr \<lparr>reg_cred_def_id = i, tails_local_path = ''/tmp/tails'',
                  tails_public_uri = None\<rparr>),
      generate_registry = Inr,
      publish_registry_definition = Inr,
      publish_registry_entry = Inr,
      save_registry = Inr\<rparr>"

text \<open>
  The scenario of section 8: a proposal previews the attribute \<open>age\<close> with value \<open>21\<close>
  under the credential definition \<open>D\<close>; the verifier has sent the bound request.
\<close>

definition demo_preview :: presentation_preview where
  "demo_preview =
     \<lparr>attributes = [\<lparr>as_name = ''age'', as_cred_def_id = Some ''D'', as_value = Some ''21''\<rparr>]\<rparr>"

definition demo_proposal :: proposal_message where
  "demo_proposal =
     \<lparr>proposal_thread_id = ''thread-1'', proposal_comment = None,
      presentation_proposal = demo_preview\<rparr>"

definition demo_request :: proof_request where
  "demo_request =
     \<lparr>requested_attributes = [(''attr1'', \<lparr>item_name = Some ''age'', item_non_revoked = None\<rparr>)],
      requested_predicates = [],
      non_revoked = None\<rparr>"

definition demo_verifier_record :: exchange_record where
  "demo_verifier_record =
     \<lparr>presentation_exchange_id = Some 1, connection_id = Some ''conn-1'',
      thread_id = ''thread-1'', initiator = INITIATOR_EXTERNAL, role = ROLE_VERIFIER,
      state = Some STATE_REQUEST_SENT, presentation_proposal_dict = Some demo_proposal,
      presentation_request = Some demo_request, presentation = None, verified = None,
      auto_present = None\<rparr>"

definition demo_world :: world where
  "demo_world = \<lparr>store = [(1, demo_verifier_record)], journal = [], local_tails = []\<rparr>"

definition demo_proof :: "string \<Rightarrow> indy_proof" where
  "demo_proof v =
     \<lparr>identifiers = [\<lparr>id_schema_id = ''S'', id_cred_def_id = ''D''\<rparr>],
      revealed_attrs = [(''attr1'', \<lparr>sub_proof_index = 0, raw = v\<rparr>)]\<rparr>"

definition demo_presentation_message :: "string \<Rightarrow> presentation_message" where
  "demo_presentation_message v =
     \<lparr>presentation_thread_id = ''thread-1'', presentation_comment = None,
      presentations_attach = demo_proof v\<rparr>"

text \<open>
  A wallet of four credentials: the third has no revocation registry, the fourth is in
  the registry of the first.
\<close>

definition demo_wallet :: "(string \<times> credential) list" where
  "demo_wallet =
     [(''cred1'', \<lparr>schema_id = ''S'', cred_def_id = ''D'', rev_reg_id = Some ''reg1'',
                  cred_rev_id = Some ''1''\<rparr>),
      (''cred2'', \<lparr>schema_id = ''S'', cred_def_id = ''D2'', rev_reg_id = Some ''reg2'',
                  cred_rev_id = Some ''2''\<rparr>),
      (''cred3'', \<lparr>schema_id = ''S3'', cred_def_id = ''D3'', rev_reg_id = None,
                  cred_rev_id = None\<rparr>),
      (''cred4'', \<lparr>schema_id = ''S'', cred_def_id = ''D'', rev_reg_id = Some ''reg1'',
                  cred_rev_id = Some ''4''\<rparr>)]"

text \<open>Collaborators that answer every call.\<close>

definition demo_env :: env where
  "demo_env =
     \<lparr>holder_get_credential =
        (\<lambda>i. case map_of demo_wallet i of
                None \<Rightarrow> Inl (ExternalError ''no such credential'')
              | Some c \<Rightarrow> Inr c),
      holder_create_presentation = (\<lambda>_ _ _ _ _. Inr (demo_proof ''21'')),
      ledger_get_schema = (\<lambda>i. Inr (''schema '' @ i)),
      ledger_get_credential_definition = (\<lambda>i. Inr (''cred def '' @ i)),
      ledger_get_revoc_reg_def = (\<lambda>i. Inr (''registry '' @ i)),
      ledger_get_revoc_reg_delta = (\<lambda>rid f t. Inr (''delta '' @ rid, t)),
      retrieve_tails = (\<lambda>_. Inr ()),
      create_revocation_state = (\<lambda>_ _ _ _. Inr ''state''),
      verifier_verify_presentation = (\<lambda>_ _ _ _. Inr True),
      responder_send_reply = Some (\<lambda>_. Inr ()),
      indy_proof_request = (\<lambda>_ _ _ _. Inr demo_request),
      storage_fault = (\<lambda>_. None),
      current_time = 1000\<rparr>"

text \<open>The verifier's record once the presentation revealing \<open>age = 21\<close> has been received.\<close>

definition demo_received_record :: exchange_record where
  "demo_received_record =
     demo_verifier_record
       \<lparr>presentation := Some (demo_proof ''21''), state := Some STATE_PRESENTATION_RECEIVED\<rparr>"


text \<open>
  A presentation of two credentials that share the schema \<open>S\<close>; the revealed attribute
  points to one of them by \<open>sub_proof_index\<close>.
\<close>

definition demo_two_identifier_proof :: "int \<Rightarrow> string \<Rightarrow> indy_proof" where
  "demo_two_identifier_proof k v =
     \<lparr>identifiers = [\<lparr>id_schema_id = ''S'', id_cred_def_id = ''D2''\<rparr>,
                     \<lparr>id_schema_id = ''S'', id_cred_def_id = ''D''\<rparr>],
      revealed_attrs = [(''attr1'', \<lparr>sub_proof_index = k, raw = v\<rparr>)]\<rparr>"

definition demo_two_identifier_message :: "int \<Rightarrow> string \<Rightarrow> presentation_message" where
  "demo_two_identifier_message k v =
     \<lparr>presentation_thread_id = ''thread-1'', presentation_comment = None,
      presentations_attach = demo_two_identifier_proof k v\<rparr>"

text \<open>
  A presentation whose first revealed attribute has a referent the proof request does
  not know, and whose second reveals \<open>age = 22\<close>.
\<close>

definition demo_unknown_referent_message :: presentation_message where
  "demo_unknown_referent_message =
     \<lparr>presentation_thread_id = ''thread-1'', presentation_comment = None,
      presentations_attach =
        \<lparr>identifiers = [\<lparr>id_schema_id = ''S'', id_cred_def_id = ''D''\<rparr>],
         revealed_attrs = [(''attrX'', \<lparr>sub_proof_index = 0, raw = ''21''\<rparr>),
                           (''attr1'', \<lparr>sub_proof_index = 0, raw = ''22''\<rparr>)]\<rparr>\<rparr>"

text \<open>
  The verifier's record once a presentation of two credentials under the same schema
  has been received.
\<close>

definition demo_two_identifier_record :: exchange_record where
  "demo_two_identifier_record =
     demo_verifier_record
       \<lparr>presentation := Some (demo_two_identifier_proof 1 ''21''),
        state := Some STATE_PRESENTATION_RECEIVED\<rparr>"

text \<open>
  A prover's record with a received request.  The request asks for two attributes and
  a predicate; \<open>request_level\<close> is its non-revocation interval, \<open>own\<close> the one of the
  first attribute.
\<close>

definition demo_prover_request ::
  "non_revoked_interval option \<Rightarrow> non_revoked_interval option \<Rightarrow> proof_request" where
  "demo_prover_request own request_level =
     \<lparr>requested_attributes =
        [(''attr1'', \<lparr>item_name = Some ''age'', item_non_revoked = own\<rparr>),
         (''attr2'', \<lparr>item_name = Some ''name'', item_non_revoked = None\<rparr>)],
      requested_predicates =
        [(''pred1'', \<lparr>item_name = Some ''age'', item_non_revoked = None\<rparr>)],
      non_revoked = request_level\<rparr>"

definition demo_prover_record ::
  "non_revoked_interval option \<Rightarrow> non_revoked_interval option \<Rightarrow> exchange_record" where
  "demo_prover_record own request_level =
     \<lparr>presentation_exchange_id = Some 2, connection_id = Some ''conn-2'',
      thread_id = ''thread-2'', initiator = INITIATOR_EXTERNAL, role = ROLE_PROVER,
      state = Some STATE_REQUEST_RECEIVED, presentation_proposal_dict = None,
      presentation_request = Some (demo_prover_request own request_level),
      presentation = None, verified = None, auto_present = None\<rparr>"

definition demo_prover_world :: world where
  "demo_prover_world = \<lparr>store = [], journal = [], local_tails = []\<rparr>"

text \<open>
  The credentials chosen for the referents: \<open>attr1\<close> and \<open>pred1\<close> are answered from the
  first credential of the wallet, \<open>attr2\<close> from the credential \<open>second\<close>.
\<close>

definition demo_requested :: "string \<Rightarrow> requested_credentials" where
  "demo_requested second =
     \<lparr>rc_requested_attributes =
        [(''attr1'', \<lparr>cred_id = ''cred1''\<rparr>), (''attr2'', \<lparr>cred_id = second\<rparr>)],
      rc_requested_predicates = [(''pred1'', \<lparr>cred_id = ''cred1''\<rparr>)]\<rparr>"
section \<open>Properties of the routes\<close>

lemma check_published_not_found:
  "search_records env cdid = Inr [] \<Longrightarrow>
   check_published env cdid t = (Inl HTTPNotFound, t @ [SearchRecords cdid])"
  by (simp add: check_published_def bnd_def rcall_def raise_def)

text \<open>
  C10.  When the storage search finds no published credential definition record for the
  requested id, \<open>revocation_create_registry\<close>, \<open>get_current_registry\<close>,
  \<open>get_tail_file\<close> and \<open>publish_registry\<close> each answer \<open>HTTPNotFound\<close>, and the storage
  search is all they have called: no operation of the revocation subsystem is in the
  log.  \<open>update_registry\<close> does not depend on what the storage search would answer and
  never calls it; when the revocation lookup accepts the id it stores the new URI on
  the record, saves the record and answers with it.
\<close>

theorem routes_published_check:
  "(search_records env (credential_definition_id body) = Inr [] \<longrightarrow>
      revocation_create_registry env body t
        = (Inl HTTPNotFound, t @ [SearchRecords (credential_definition_id body)]))
   \<and> (search_records env (Some cdid) = Inr [] \<longrightarrow>
      get_current_registry env cdid t = (Inl HTTPNotFound, t @ [SearchRecords (Some cdid)])
      \<and> get_tail_file env cdid t = (Inl HTTPNotFound, t @ [SearchRecords (Some cdid)])
      \<and> publish_registry env cdid t = (Inl HTTPNotFound, t @ [SearchRecords (Some cdid)]))
   \<and> update_registry (env\<lparr>search_records := s\<rparr>) req t = update_registry env req t
   \<and> filter is_search (snd (update_registry env req t)) = filter is_search t
   \<and> (get_active_issuer_revocation_record env (match_info_id req) = Inr reg
        \<and> save_registry env (reg\<lparr>tails_public_uri := body_tails_public_uri req\<rparr>) = Inr saved \<longrightarrow>
      update_registry env req t
        = (Inr (JsonResponse saved),
           t @ [GetActiveIssuerRevocationRecord (match_info_id req),
                SaveRegistry (reg\<lparr>tails_public_uri := body_tails_public_uri req\<rparr>)]))"
proof -
  have create: "revocation_create_registry env body t
        = (Inl HTTPNotFound, t @ [SearchRecords (credential_definition_id body)])"
    if "search_records env (credential_definition_id body) = Inr []"
    using check_published_not_found [OF that, of t]
    by (simp add: revocation_create_registry_def bnd_def)
  have others: "get_current_registry env cdid t = (Inl HTTPNotFound, t @ [SearchRecords (Some cdid)])
      \<and> get_tail_file env cdid t = (Inl HTTPNotFound, t @ [SearchRecords (Some cdid)])
      \<and> publish_registry env cdid t = (Inl HTTPNotFound, t @ [SearchRecords (Some cdid)])"
    if "search_records env (Some cdid) = Inr []"
    using check_published_not_found [OF that, of t]
    by (simp add: get_current_registry_def get_tail_file_def publish_registry_def bnd_def)
  have indep: "update_registry (env\<lparr>search_records := s\<rparr>) req t = update_registry env req t"
    by (simp add: update_registry_def)
  have nosearch: "filter is_search (snd (update_registry env req t)) = filter is_search t"
    by (auto simp: update_registry_def bnd_def rcall_def ret_def bad_request_if_not_supported_def
        split: sum.splits error.splits prod.splits)
  have proceeds: "update_registry env req t
        = (Inr (JsonResponse saved),
           t @ [GetActiveIssuerRevocationRecord (match_info_id req),
                SaveRegistry (reg\<lparr>tails_public_uri := body_tails_public_uri req\<rparr>)])"
    if "get_active_issuer_revocation_record env (match_info_id req) = Inr reg"
      and "save_registry env (reg\<lparr>tails_public_uri := body_tails_public_uri req\<rparr>) = Inr saved"
    using that
    by (simp add: update_registry_def bnd_def rcall_def ret_def bad_request_if_not_supported_def)
  show ?thesis
    using create others indep nosearch proceeds by simp
qed

theorem routes_published_check_witness:
  "revocation_create_registry demo_route_env
      \<lparr>credential_definition_id = Some ''WgWx:3:CL:20:tag'', max_cred_num = None\<rparr> []
     = (Inl HTTPNotFound, [SearchRecords (Some ''WgWx:3:CL:20:tag'')])
   \<and> get_current_registry demo_route_env ''WgWx:3:CL:20:tag'' []
     = (Inl HTTPNotFound, [SearchRecords (Some ''WgWx:3:CL:20:tag'')])
   \<and> get_tail_file demo_route_env ''WgWx:3:CL:20:tag'' []
     = (Inl HTTPNotFound, [SearchRecords (Some ''WgWx:3:CL:20:tag'')])
   \<and> publish_registry demo_route_env ''WgWx:3:CL:20:tag'' []
     = (Inl HTTPNotFound, [SearchRecords (Some ''WgWx:3:CL:20:tag'')])
   \<and> update_registry demo_route_env
        \<lparr>match_info_id = ''WgWx:3:CL:20:tag'', body_tails_public_uri = Some ''http://t/1''\<rparr> []
     = (Inr (JsonResponse \<lparr>reg_cred_def_id = ''WgWx:3:CL:20:tag'',
                           tails_local_path = ''/tmp/tails'',
                           tails_public_uri = Some ''http://t/1''\<rparr>),
        [GetActiveIssuerRevocationRecord ''WgWx:3:CL:20:tag'',
         SaveRegistry \<lparr>reg_cred_def_id = ''WgWx:3:CL:20:tag'',
                       tails_local_path = ''/tmp/tails'',
                       tails_public_uri = Some ''http://t/1''\<rparr>])"
  using routes_published_check
    [of demo_route_env
        "\<lparr>credential_definition_id = Some ''WgWx:3:CL:20:tag'', max_cred_num = None\<rparr>"
        "[]" "''WgWx:3:CL:20:tag''" "search_records demo_route_env"
        "\<lparr>match_info_id = ''WgWx:3:CL:20:tag'', body_tails_public_uri = Some ''http://t/1''\<rparr>"
        "\<lparr>reg_cred_def_id = ''WgWx:3:CL:20:tag'', tails_local_path = ''/tmp/tails'',
          tails_public_uri = None\<rparr>"
        "\<lparr>reg_cred_def_id = ''WgWx:3:CL:20:tag'', tails_local_path = ''/tmp/tails'',
          tails_public_uri = Some ''http://t/1''\<rparr>"]
  by (simp add: demo_route_env_def)

section \<open>Laws of the computations\<close>

lemma bnd_ret [simp]: "bnd (ret x) f = f x"
  by (simp add: bnd_def ret_def)

lemma bnd_raise [simp]: "bnd (raise e) f = raise e"
  by (simp add: bnd_def raise_def)

lemma bnd_lift_Inr [simp]: "bnd (lift (Inr x)) f = f x"
  by (simp add: bnd_def lift_def)

lemma bnd_lift_Inl [simp]: "bnd (lift (Inl e)) f = raise e"
  by (simp add: bnd_def lift_def raise_def)

lemma ret_apply [simp]: "ret x w = (Inr x, w)"
  by (simp add: ret_def)

lemma raise_apply [simp]: "raise e w = (Inl e, w)"
  by (simp add: raise_def)

lemma lift_apply [simp]: "lift r w = (r, w)"
  by (simp add: lift_def)

lemma bnd_Pair_Inl [simp]: "bnd (Pair (Inl e)) f w = (Inl e, w)"
  by (simp add: bnd_def)

lemma bnd_Pair_Inr [simp]: "bnd (Pair (Inr x)) f w = f x w"
  by (simp add: bnd_def)

lemma bnd_Inl: "m w = (Inl e, w1) \<Longrightarrow> bnd m f w = (Inl e, w1)"
  by (simp add: bnd_def)

lemma bnd_Inr: "m w = (Inr x, w1) \<Longrightarrow> bnd m f w = f x w1"
  by (simp add: bnd_def)

lemma bndE:
  assumes "bnd m f w = (res, w')"
  obtains (failed) e where "m w = (Inl e, w')" and "res = Inl e"
        | (returned) x w1 where "m w = (Inr x, w1)" and "f x w1 = (res, w')"
  using assms by (auto simp: bnd_def split: prod.splits sum.splits)

lemma call_apply [simp]: "call ev r w = (r, w\<lparr>journal := journal w @ [ev]\<rparr>)"
  by (simp add: call_def)

lemma new_events_same [simp]: "new_events w w = []"
  by (simp add: new_events_def)

lemma new_events_append: "journal w' = journal w @ evs \<Longrightarrow> new_events w w' = evs"
  by (simp add: new_events_def)

subsection \<open>The record store\<close>

lemma save_faulty:
  "storage_fault env r = Some e \<Longrightarrow> save env r reason w = (Inl e, w)"
  by (simp add: save_def)

lemma save_ok:
  assumes "storage_fault env r = None"
  shows "\<exists>i. save env r reason w
            = (Inr (r\<lparr>presentation_exchange_id := Some i\<rparr>),
               w\<lparr>store := AList.update i (r\<lparr>presentation_exchange_id := Some i\<rparr>) (store w),
                 journal := journal w @ [Persisted (r\<lparr>presentation_exchange_id := Some i\<rparr>) reason]\<rparr>)"
  using assms
  by (intro exI [where x = "case presentation_exchange_id r of None \<Rightarrow> fresh_id (store w) | Some j \<Rightarrow> j"])
     (simp add: save_def Let_def)

lemma save_cases:
  assumes "save env r reason w = (res, w')"
  obtains (refused) e where "storage_fault env r = Some e" and "res = Inl e" and "w' = w"
        | (written) i where "storage_fault env r = None"
            and "res = Inr (r\<lparr>presentation_exchange_id := Some i\<rparr>)"
            and "w' = w\<lparr>store := AList.update i (r\<lparr>presentation_exchange_id := Some i\<rparr>) (store w),
                 journal := journal w @ [Persisted (r\<lparr>presentation_exchange_id := Some i\<rparr>) reason]\<rparr>"
proof (cases "storage_fault env r")
  case None
  from save_ok [OF None, of reason w] assms written [OF None] show ?thesis
    by auto
next
  case (Some e)
  from save_faulty [OF Some, of reason w] assms refused [OF Some] show ?thesis
    by auto
qed

lemma retrieve_keeps_world:
  "retrieve_by_tag_filter thid conn w = (res, w') \<Longrightarrow> w' = w"
  by (auto simp: retrieve_by_tag_filter_def split: list.splits)

section \<open>Bound requests\<close>

text \<open>
  C3.  On a record with no stored proposal, \<open>create_bound_request\<close> fails with
  \<open>ProtocolError\<close> and leaves the world as it was: nothing is persisted.
\<close>

theorem create_bound_request_without_proposal:
  assumes "presentation_proposal_dict r = None"
  shows "create_bound_request env r name version nonce comment w = (Inl ProtocolError, w)"
  using assms by (simp add: create_bound_request_def deserialize_def)

theorem create_bound_request_without_proposal_witness:
  "presentation_proposal_dict (demo_verifier_record\<lparr>presentation_proposal_dict := None\<rparr>) = None
   \<and> create_bound_request demo_env (demo_verifier_record\<lparr>presentation_proposal_dict := None\<rparr>)
        None None None None demo_world
     = (Inl ProtocolError, demo_world)"
  using create_bound_request_without_proposal
    [of "demo_verifier_record\<lparr>presentation_proposal_dict := None\<rparr>" demo_env None None None None
        demo_world]
  by simp

section \<open>The check of a received presentation against the proposal\<close>

text \<open>
  What \<open>revealed_triple\<close> reads, in terms of the data: the name stored under the referent
  in the proof request, the raw value, and the credential definition id of the identifier
  the index selects (an index below zero counts from the end of the list).
\<close>

lemma revealed_triple_data:
  "revealed_triple proof_req pres x = Inr (cd, name, v)
   \<longleftrightarrow> (\<exists>pr item.
          proof_req = Some pr
          \<and> map_of (requested_attributes pr) (fst x) = Some item
          \<and> item_name item = Some name
          \<and> - int (length (identifiers pres)) \<le> sub_proof_index (snd x)
          \<and> sub_proof_index (snd x) < int (length (identifiers pres))
          \<and> cd = id_cred_def_id
                   (identifiers pres
                    ! nat (if 0 \<le> sub_proof_index (snd x) then sub_proof_index (snd x)
                           else int (length (identifiers pres)) + sub_proof_index (snd x)))
          \<and> v = raw (snd x))"
  by (cases x) (auto simp: revealed_triple_def py_index_def split: option.splits)

lemma revealed_triple_errors:
  "revealed_triple proof_req pres x = Inl e \<Longrightarrow>
   e \<in> {TypeError, KeyError (fst x), KeyError ''name'', IndexError}"
  by (cases x) (auto simp: revealed_triple_def py_index_def split: option.splits if_splits)

lemma check_revealed_attrs_all_match:
  assumes "\<forall>x \<in> set xs. \<exists>cd n v. revealed_triple pr pres x = Inr (cd, n, v) \<and> has_attr_spec preview cd n v"
  shows "check_revealed_attrs preview pr pres xs = Inr ()"
  using assms by (induction xs) auto

text \<open>The attributes are checked in order: those that match are passed over.\<close>

lemma check_revealed_attrs_prefix:
  assumes "\<forall>x \<in> set xs. \<exists>cd n v. revealed_triple pr pres x = Inr (cd, n, v) \<and> has_attr_spec preview cd n v"
  shows "check_revealed_attrs preview pr pres (xs @ zs) = check_revealed_attrs preview pr pres zs"
  using assms by (induction xs) auto

lemma receive_presentation_failure_keeps_world:
  assumes "receive_presentation env conn msg w = (Inl e, w')"
  shows "w' = w"
  using assms
  apply (simp add: receive_presentation_def)
  apply (elim bndE)
  apply (auto dest: retrieve_keeps_world elim!: save_cases simp: deserialize_def split: option.splits)
  done

lemma receive_presentation_checked:
  assumes found: "retrieve_by_tag_filter (presentation_thread_id msg) conn w = (Inr r, w)"
    and proposal: "presentation_proposal_dict r = Some proposal"
    and checked: "check_revealed_attrs (presentation_proposal proposal) (presentation_request r)
                    (presentations_attach msg) (revealed_attrs (presentations_attach msg)) = Inl e"
  shows "receive_presentation env conn msg w = (Inl e, w)"
  using assms by (simp add: receive_presentation_def bnd_Inr deserialize_def)

text \<open>
  The claim C1 as stated fails: a revealed attribute whose referent is not in the stored
  proof request stops the check with \<open>KeyError\<close> before the attribute behind it, whose
  triple \<open>(D, age, 22)\<close> the preview lacks, is looked at.
\<close>

theorem receive_presentation_unknown_referent:
  "revealed_attrs (presentations_attach demo_unknown_referent_message)
     = [(''attrX'', \<lparr>sub_proof_index = 0, raw = ''21''\<rparr>),
        (''attr1'', \<lparr>sub_proof_index = 0, raw = ''22''\<rparr>)]
   \<and> map_of (requested_attributes demo_request) ''attr1''
       = Some \<lparr>item_name = Some ''age'', item_non_revoked = None\<rparr>
   \<and> id_cred_def_id (identifiers (presentations_attach demo_unknown_referent_message) ! 0) = ''D''
   \<and> \<not> has_attr_spec demo_preview ''D'' ''age'' ''22''
   \<and> receive_presentation demo_env (Some ''conn-1'') demo_unknown_referent_message demo_world
       = (Inl (KeyError ''attrX''), demo_world)"
  by (simp add: receive_presentation_def retrieve_by_tag_filter_def matches_tags_def
      demo_unknown_referent_message_def demo_world_def demo_verifier_record_def
      demo_proposal_def demo_preview_def demo_request_def demo_env_def deserialize_def
      revealed_triple_def py_index_def has_attr_spec_def bnd_def)

text \<open>
  C1, as the code has it.  Let \<open>receive_presentation\<close> retrieve a record that has a stored
  proposal.  A revealed attribute resolves to the triple \<open>(cd, name, v)\<close> when its referent
  is in the stored proof request with the name \<open>name\<close>, its \<open>sub_proof_index\<close> selects an
  identifier of the presentation, \<open>cd\<close> is that identifier's credential definition id, and
  \<open>v\<close> is its raw value; it matches when the triple is an attribute specification of the
  stored preview.  The attributes are checked in order.

  \<^item> If every revealed attribute matches (and the storage accepts the write), the call
    returns the record with the presentation stored and the state PRESENTATION_RECEIVED,
    and that record is persisted.
  \<^item> If the first revealed attribute that does not match resolves to a triple the preview
    lacks, the call raises \<open>PresentationManagerError\<close> and nothing is saved.
  \<^item> If the first revealed attribute that does not match does not resolve, the call fails
    with the lookup's error (\<open>TypeError\<close>, \<open>KeyError\<close> or \<open>IndexError\<close>) and nothing is
    saved.
  \<^item> Whenever the call fails, the world is as it was.
\<close>

theorem receive_presentation_checks_proposal:
  assumes found: "retrieve_by_tag_filter (presentation_thread_id msg) conn w = (Inr r, w)"
    and proposal: "presentation_proposal_dict r = Some proposal"
  shows
    "let pres = presentations_attach msg;
         ids = identifiers pres;
         preview = presentation_proposal proposal;
         resolves = (\<lambda>x cd name v.
            \<exists>pr item.
               presentation_request r = Some pr
               \<and> map_of (requested_attributes pr) (fst x) = Some item
               \<and> item_name item = Some name
               \<and> - int (length ids) \<le> sub_proof_index (snd x)
               \<and> sub_proof_index (snd x) < int (length ids)
               \<and> cd = id_cred_def_id
                        (ids ! nat (if 0 \<le> sub_proof_index (snd x) then sub_proof_index (snd x)
                                    else int (length ids) + sub_proof_index (snd x)))
               \<and> v = raw (snd x));
         matches = (\<lambda>x. \<exists>cd name v. resolves x cd name v \<and> has_attr_spec preview cd name v)
     in ((\<forall>x \<in> set (revealed_attrs pres). matches x)
           \<and> storage_fault env (r\<lparr>presentation := Some pres,
                                    state := Some STATE_PRESENTATION_RECEIVED\<rparr>) = None
         \<longrightarrow> (\<exists>r' w' i. receive_presentation env conn msg w = (Inr r', w')
                \<and> state r' = Some STATE_PRESENTATION_RECEIVED
                \<and> presentation r' = Some pres
                \<and> map_of (store w') i = Some r'
                \<and> new_events w w' = [Persisted r' ''receive presentation'']))
        \<and> (\<forall>xs x ys cd name v.
              revealed_attrs pres = xs @ x # ys \<and> (\<forall>y \<in> set xs. matches y)
                \<and> resolves x cd name v \<and> \<not> has_attr_spec preview cd name v
              \<longrightarrow> (\<exists>explanation. receive_presentation env conn msg w
                                   = (Inl (PresentationManagerError explanation), w)))
        \<and> (\<forall>xs x ys.
              revealed_attrs pres = xs @ x # ys \<and> (\<forall>y \<in> set xs. matches y)
                \<and> (\<forall>cd name v. \<not> resolves x cd name v)
              \<longrightarrow> (\<exists>e. receive_presentation env conn msg w = (Inl e, w)
                        \<and> e \<in> {TypeError, KeyError (fst x), KeyError ''name'', IndexError}))
        \<and> (\<forall>e w'. receive_presentation env conn msg w = (Inl e, w') \<longrightarrow> w' = w)"
proof -
  let ?pres = "presentations_attach msg"
  let ?preview = "presentation_proposal proposal"
  let ?req = "presentation_request r"
  let ?upd = "r\<lparr>presentation := Some ?pres, state := Some STATE_PRESENTATION_RECEIVED\<rparr>"
  let ?good = "\<lambda>x. \<exists>cd name v. revealed_triple ?req ?pres x = Inr (cd, name, v)
                                 \<and> has_attr_spec ?preview cd name v"
  have success:
    "\<exists>r' w' i. receive_presentation env conn msg w = (Inr r', w')
                 \<and> state r' = Some STATE_PRESENTATION_RECEIVED
                 \<and> presentation r' = Some ?pres
                 \<and> map_of (store w') i = Some r'
                 \<and> new_events w w' = [Persisted r' ''receive presentation'']"
    if ok: "\<forall>x \<in> set (revealed_attrs ?pres). ?good x" and accepted: "storage_fault env ?upd = None"
  proof -
    from ok
    have chk: "check_revealed_attrs ?preview ?req ?pres (revealed_attrs ?pres) = Inr ()"
      by (rule check_revealed_attrs_all_match)
    from accepted save_ok [of env ?upd "''receive presentation''" w]
    obtain i where sv: "save env ?upd ''receive presentation'' w
            = (Inr (?upd\<lparr>presentation_exchange_id := Some i\<rparr>),
               w\<lparr>store := AList.update i (?upd\<lparr>presentation_exchange_id := Some i\<rparr>) (store w),
                 journal := journal w @ [Persisted (?upd\<lparr>presentation_exchange_id := Some i\<rparr>)
                                           ''receive presentation'']\<rparr>)"
      by blast
    have run: "receive_presentation env conn msg w
            = (Inr (?upd\<lparr>presentation_exchange_id := Some i\<rparr>),
               w\<lparr>store := AList.update i (?upd\<lparr>presentation_exchange_id := Some i\<rparr>) (store w),
                 journal := journal w @ [Persisted (?upd\<lparr>presentation_exchange_id := Some i\<rparr>)
                                           ''receive presentation'']\<rparr>)"
      using found proposal chk sv
      by (simp add: receive_presentation_def bnd_Inr deserialize_def)
    show ?thesis
      unfolding run
      apply (rule exI [where x = "?upd\<lparr>presentation_exchange_id := Some i\<rparr>"])
      apply (rule exI [where x = "w\<lparr>store := AList.update i (?upd\<lparr>presentation_exchange_id := Some i\<rparr>) (store w),
                 journal := journal w @ [Persisted (?upd\<lparr>presentation_exchange_id := Some i\<rparr>)
                                           ''receive presentation'']\<rparr>"])
      apply (rule exI [where x = i])
      apply (simp add: AList.update_conv' new_events_def)
      done
  qed
  have mismatch:
    "\<exists>explanation. receive_presentation env conn msg w
                      = (Inl (PresentationManagerError explanation), w)"
    if attrs: "revealed_attrs ?pres = xs @ x # ys" and before: "\<forall>y \<in> set xs. ?good y"
      and triple: "revealed_triple ?req ?pres x = Inr (cd, name, v)"
      and lacks: "\<not> has_attr_spec ?preview cd name v"
    for xs x ys cd name v
  proof -
    from triple lacks
    have "check_revealed_attrs ?preview ?req ?pres (x # ys)
          = Inl (PresentationManagerError
                   (''Presentation '' @ name @ ''='' @ v @ '' mismatches proposal value''))"
      by simp
    with check_revealed_attrs_prefix [OF before, of "x # ys"] attrs
    have "check_revealed_attrs ?preview ?req ?pres (revealed_attrs ?pres)
          = Inl (PresentationManagerError
                   (''Presentation '' @ name @ ''='' @ v @ '' mismatches proposal value''))"
      by simp
    from receive_presentation_checked [OF found proposal this] show ?thesis
      by blast
  qed
  have unresolved:
    "\<exists>e. receive_presentation env conn msg w = (Inl e, w)
          \<and> e \<in> {TypeError, KeyError (fst x), KeyError ''name'', IndexError}"
    if attrs: "revealed_attrs ?pres = xs @ x # ys" and before: "\<forall>y \<in> set xs. ?good y"
      and none: "\<forall>cd name v. revealed_triple ?req ?pres x \<noteq> Inr (cd, name, v)"
    for xs x ys
  proof -
    from none obtain e where e: "revealed_triple ?req ?pres x = Inl e"
      by (cases "revealed_triple ?req ?pres x") auto
    then have "check_revealed_attrs ?preview ?req ?pres (x # ys) = Inl e"
      by simp
    with check_revealed_attrs_prefix [OF before, of "x # ys"] attrs
    have "check_revealed_attrs ?preview ?req ?pres (revealed_attrs ?pres) = Inl e"
      by simp
    from receive_presentation_checked [OF found proposal this] revealed_triple_errors [OF e]
    show ?thesis
      by blast
  qed
  have unchanged: "w' = w" if "receive_presentation env conn msg w = (Inl e, w')" for e w'
    using that by (rule receive_presentation_failure_keeps_world)
  show ?thesis
    unfolding Let_def revealed_triple_data [symmetric]
    using success mismatch unresolved unchanged
    by (intro conjI allI impI; (elim conjE)?) blast+
qed

theorem receive_presentation_checks_proposal_witness:
  "(\<exists>r' w' i. receive_presentation demo_env (Some ''conn-1'') (demo_two_identifier_message 1 ''21'')
                  demo_world = (Inr r', w')
        \<and> state r' = Some STATE_PRESENTATION_RECEIVED
        \<and> presentation r' = Some (demo_two_identifier_proof 1 ''21'')
        \<and> map_of (store w') i = Some r'
        \<and> new_events demo_world w' = [Persisted r' ''receive presentation''])
   \<and> (\<exists>explanation. receive_presentation demo_env (Some ''conn-1'')
                        (demo_two_identifier_message 1 ''22'') demo_world
          = (Inl (PresentationManagerError explanation), demo_world))
   \<and> (\<exists>explanation. receive_presentation demo_env (Some ''conn-1'')
                        (demo_two_identifier_message 0 ''21'') demo_world
          = (Inl (PresentationManagerError explanation), demo_world))
   \<and> (\<exists>e. receive_presentation demo_env (Some ''conn-1'')
              (demo_two_identifier_message 2 ''21'') demo_world = (Inl e, demo_world)
          \<and> e \<in> {TypeError, KeyError ''attr1'', KeyError ''name'', IndexError})"
proof -
  have found: "retrieve_by_tag_filter (presentation_thread_id (demo_two_identifier_message k v))
                 (Some ''conn-1'') demo_world = (Inr demo_verifier_record, demo_world)" for k v
    by (simp add: retrieve_by_tag_filter_def demo_two_identifier_message_def demo_world_def
        demo_verifier_record_def matches_tags_def)
  have proposal: "presentation_proposal_dict demo_verifier_record = Some demo_proposal"
    by (simp add: demo_verifier_record_def)
  have attrs: "revealed_attrs (presentations_attach (demo_two_identifier_message k v))
                 = [] @ (''attr1'', \<lparr>sub_proof_index = k, raw = v\<rparr>) # []" for k v
    by (simp add: demo_two_identifier_message_def demo_two_identifier_proof_def)
  have request: "presentation_request demo_verifier_record = Some demo_request"
    by (simp add: demo_verifier_record_def)
  have item: "map_of (requested_attributes demo_request) ''attr1''
              = Some \<lparr>item_name = Some ''age'', item_non_revoked = None\<rparr>"
    by (simp add: demo_request_def)
  have ids: "identifiers (presentations_attach (demo_two_identifier_message k v))
             = [\<lparr>id_schema_id = ''S'', id_cred_def_id = ''D2''\<rparr>,
                \<lparr>id_schema_id = ''S'', id_cred_def_id = ''D''\<rparr>]" for k v
    by (simp add: demo_two_identifier_message_def demo_two_identifier_proof_def)
  have pres: "presentations_attach (demo_two_identifier_message k v) = demo_two_identifier_proof k v"
    for k v
    by (simp add: demo_two_identifier_message_def)
  have good: "has_attr_spec (presentation_proposal demo_proposal) ''D'' ''age'' ''21''"
    by (simp add: has_attr_spec_def demo_proposal_def demo_preview_def)
  have bad: "\<not> has_attr_spec (presentation_proposal demo_proposal) ''D'' ''age'' ''22''"
    "\<not> has_attr_spec (presentation_proposal demo_proposal) ''D2'' ''age'' ''21''"
    by (simp_all add: has_attr_spec_def demo_proposal_def demo_preview_def)
  have accepts: "storage_fault demo_env x = None" for x
    by (simp add: demo_env_def)
  note claim = receive_presentation_checks_proposal [OF found proposal, unfolded Let_def, of _ _ demo_env]
  from claim [of 1 "''21''", THEN conjunct1]
  have "\<exists>r' w' i. receive_presentation demo_env (Some ''conn-1'')
                  (demo_two_identifier_message 1 ''21'') demo_world = (Inr r', w')
        \<and> state r' = Some STATE_PRESENTATION_RECEIVED
        \<and> presentation r' = Some (presentations_attach (demo_two_identifier_message 1 ''21''))
        \<and> map_of (store w') i = Some r'
        \<and> new_events demo_world w' = [Persisted r' ''receive presentation'']"
    by (simp add: attrs ids request item good accepts)
  then have first: "\<exists>r' w' i. receive_presentation demo_env (Some ''conn-1'')
                  (demo_two_identifier_message 1 ''21'') demo_world = (Inr r', w')
        \<and> state r' = Some STATE_PRESENTATION_RECEIVED
        \<and> presentation r' = Some (demo_two_identifier_proof 1 ''21'')
        \<and> map_of (store w') i = Some r'
        \<and> new_events demo_world w' = [Persisted r' ''receive presentation'']"
    by (simp add: pres)
  from claim [of 1 "''22''", THEN conjunct2, THEN conjunct1, rule_format,
      where xs = "[]" and x = "(''attr1'', \<lparr>sub_proof_index = 1, raw = ''22''\<rparr>)" and ys = "[]"
        and cd = "''D''" and name = "''age''" and v = "''22''"]
  have second: "\<exists>explanation. receive_presentation demo_env (Some ''conn-1'')
                        (demo_two_identifier_message 1 ''22'') demo_world
          = (Inl (PresentationManagerError explanation), demo_world)"
    by (simp add: attrs ids request item bad)
  from claim [of 0 "''21''", THEN conjunct2, THEN conjunct1, rule_format,
      where xs = "[]" and x = "(''attr1'', \<lparr>sub_proof_index = 0, raw = ''21''\<rparr>)" and ys = "[]"
        and cd = "''D2''" and name = "''age''" and v = "''21''"]
  have third: "\<exists>explanation. receive_presentation demo_env (Some ''conn-1'')
                        (demo_two_identifier_message 0 ''21'') demo_world
          = (Inl (PresentationManagerError explanation), demo_world)"
    by (simp add: attrs ids request item bad)
  from claim [of 2 "''21''", THEN conjunct2, THEN conjunct2, THEN conjunct1, rule_format,
      where xs = "[]" and x = "(''attr1'', \<lparr>sub_proof_index = 2, raw = ''21''\<rparr>)" and ys = "[]"]
  have fourth: "\<exists>e. receive_presentation demo_env (Some ''conn-1'')
              (demo_two_identifier_message 2 ''21'') demo_world = (Inl e, demo_world)
          \<and> e \<in> {TypeError, KeyError ''attr1'', KeyError ''name'', IndexError}"
    by (simp add: attrs ids request item)
  from first second third fourth show ?thesis by blast
qed

section \<open>Verification of a presentation\<close>

lemma fetch_each_returns:
  "fetch_each ev get xs acc w = (Inr acc', w') \<Longrightarrow> w' = w\<lparr>journal := journal w @ map ev xs\<rparr>"
proof (induction xs arbitrary: acc w)
  case Nil
  then show ?case by simp
next
  case (Cons x xs)
  from Cons.prems obtain v where "get x = Inr v"
    and rest: "fetch_each ev get xs (AList.update x v acc) (w\<lparr>journal := journal w @ [ev x]\<rparr>)
                 = (Inr acc', w')"
    by (auto elim!: bndE)
  from Cons.IH [OF rest] show ?case by simp
qed

lemma fetch_each_events:
  "fetch_each ev get xs acc w = (res, w') \<Longrightarrow>
   \<exists>evs. w' = w\<lparr>journal := journal w @ evs\<rparr> \<and> set evs \<subseteq> ev ` set xs"
proof (induction xs arbitrary: acc w)
  case Nil
  then show ?case by (auto intro: exI [where x = "[]"])
next
  case (Cons x xs)
  from Cons.prems
  have "bnd (call (ev x) (get x)) (\<lambda>v. fetch_each ev get xs (AList.update x v acc)) w = (res, w')"
    by simp
  then show ?case
  proof (cases rule: bndE)
    case (failed e)
    then have "w' = w\<lparr>journal := journal w @ [ev x]\<rparr>" by simp
    then show ?thesis by (intro exI [where x = "[ev x]"]) simp
  next
    case (returned v w1)
    then have w1: "w1 = w\<lparr>journal := journal w @ [ev x]\<rparr>" by simp
    from Cons.IH [OF returned(2)] obtain evs
      where "w' = w1\<lparr>journal := journal w1 @ evs\<rparr>" and "set evs \<subseteq> ev ` set xs"
      by blast
    with w1 show ?thesis by (intro exI [where x = "ev x # evs"]) auto
  qed
qed

text \<open>
  How a run of \<open>verify_presentation\<close> went: it failed before anything was saved, after
  ledger and verifier calls only; or the record was saved, and then the acknowledgement
  was sent, when there is a responder.
\<close>

lemma verify_presentation_cases:
  assumes run: "verify_presentation env r w = (res, w')"
  shows "(\<exists>e evs. res = Inl e \<and> w' = w\<lparr>journal := journal w @ evs\<rparr>
            \<and> (\<forall>ev \<in> set evs. reply_sent ev = None \<and> persisted ev = None))
       \<or> (\<exists>indy_proof S C b i acked.
            presentation r = Some indy_proof
            \<and> verifier_verify_presentation env (presentation_request r) indy_proof S C = Inr b
            \<and> w' = w\<lparr>store := AList.update i
                       (r\<lparr>verified := Some (PyStr (json_dumps b)), state := Some STATE_VERIFIED,
                          presentation_exchange_id := Some i\<rparr>) (store w),
                     journal := journal w
                       @ map GetSchema (map id_schema_id (identifiers indy_proof))
                       @ map GetCredentialDefinition (map id_cred_def_id (identifiers indy_proof))
                       @ [VerifierVerifyPresentation,
                          Persisted (r\<lparr>verified := Some (PyStr (json_dumps b)),
                                       state := Some STATE_VERIFIED,
                                       presentation_exchange_id := Some i\<rparr>)
                            ''verify presentation'']
                       @ (case responder_send_reply env of
                            None \<Rightarrow> []
                          | Some send_reply \<Rightarrow> [SendReply \<lparr>ack_thread_id = thread_id r\<rparr>])\<rparr>
            \<and> (case responder_send_reply env of
                  None \<Rightarrow> acked = Inr ()
                | Some send_reply \<Rightarrow> acked = send_reply \<lparr>ack_thread_id = thread_id r\<rparr>)
            \<and> res = (case acked of
                       Inl e \<Rightarrow> Inl e
                     | Inr u \<Rightarrow> Inr (r\<lparr>verified := Some (PyStr (json_dumps b)),
                                     state := Some STATE_VERIFIED,
                                     presentation_exchange_id := Some i\<rparr>)))"
proof (cases "presentation r")
  case None
  with run have "res = Inl TypeError" and "w' = w"
    by (simp_all add: verify_presentation_def)
  then show ?thesis
    by (intro disjI1 exI [where x = TypeError] exI [where x = "[]"]) simp
next
  case (Some indy_proof)
  let ?sids = "map id_schema_id (identifiers indy_proof)"
  let ?cids = "map id_cred_def_id (identifiers indy_proof)"
  note run' = run [unfolded verify_presentation_def Some option.case]
  from run' show ?thesis
  proof (cases rule: bndE)
    case (failed e)
    from fetch_each_events [OF failed(1)] obtain evs
      where "w' = w\<lparr>journal := journal w @ evs\<rparr>"
        and "set evs \<subseteq> GetSchema ` set ?sids"
      by blast
    with failed(2) show ?thesis
      by (intro disjI1 exI [where x = e] exI [where x = evs]) auto
  next
    case schemas: (returned S w1)
    note w1 = fetch_each_returns [OF schemas(1)]
    from schemas(2) show ?thesis
    proof (cases rule: bndE)
      case (failed e)
      from fetch_each_events [OF failed(1)] obtain evs
        where "w' = w1\<lparr>journal := journal w1 @ evs\<rparr>"
          and "set evs \<subseteq> GetCredentialDefinition ` set ?cids"
        by blast
      with w1 failed(2) show ?thesis
        by (intro disjI1 exI [where x = e] exI [where x = "map GetSchema ?sids @ evs"]) auto
    next
      case cds: (returned C w2)
      note w2 = fetch_each_returns [OF cds(1)]
      from cds(2) show ?thesis
      proof (cases rule: bndE)
        case (failed e)
        with w1 w2 show ?thesis
          by (intro disjI1 exI [where x = e]
              exI [where x = "map GetSchema ?sids @ map GetCredentialDefinition ?cids
                                @ [VerifierVerifyPresentation]"])
            auto
      next
        case verdict: (returned b w3)
        then have w3: "w3 = w2\<lparr>journal := journal w2 @ [VerifierVerifyPresentation]\<rparr>"
          and b: "verifier_verify_presentation env (presentation_request r) indy_proof S C = Inr b"
          by simp_all
        from verdict(2) show ?thesis
        proof (cases rule: bndE)
          case (failed e)
          from failed(1) have "w' = w3"
            by (auto elim: save_cases)
          with w1 w2 w3 failed(2) show ?thesis
            by (intro disjI1 exI [where x = e]
                exI [where x = "map GetSchema ?sids @ map GetCredentialDefinition ?cids
                                  @ [VerifierVerifyPresentation]"])
              auto
        next
          case saving: (returned saved w4)
          from saving(1) obtain i
            where saved: "saved = r\<lparr>verified := Some (PyStr (json_dumps b)),
                                    state := Some STATE_VERIFIED,
                                    presentation_exchange_id := Some i\<rparr>"
              and w4: "w4 = w3\<lparr>store := AList.update i saved (store w3),
                               journal := journal w3 @ [Persisted saved ''verify presentation'']\<rparr>"
            by (auto elim!: save_cases)
          show ?thesis
          proof (cases "responder_send_reply env")
            case None
            with saving(2) have "res = Inr saved" and "w' = w4"
              by (simp_all add: send_presentation_ack_def)
            with None Some b saved w1 w2 w3 w4 show ?thesis
              by (rule_tac disjI2, rule_tac x = indy_proof in exI, rule_tac x = S in exI,
                  rule_tac x = C in exI, rule_tac x = b in exI, rule_tac x = i in exI,
                  rule_tac x = "Inr ()" in exI)
                simp
          next
            case (Some send_reply)
            let ?ack = "\<lparr>ack_thread_id = thread_id r\<rparr>"
            from saving(2) Some saved
            have "res = (case send_reply ?ack of Inl e \<Rightarrow> Inl e | Inr u \<Rightarrow> Inr saved)"
              and "w' = w4\<lparr>journal := journal w4 @ [SendReply ?ack]\<rparr>"
              by (auto simp: send_presentation_ack_def bnd_def split: sum.splits)
            with Some \<open>presentation r = Some indy_proof\<close> b saved w1 w2 w3 w4 show ?thesis
              by (rule_tac disjI2, rule_tac x = indy_proof in exI, rule_tac x = S in exI,
                  rule_tac x = C in exI, rule_tac x = b in exI, rule_tac x = i in exI,
                  rule_tac x = "send_reply ?ack" in exI)
                (simp split: sum.splits)
          qed
        qed
      qed
    qed
  qed
qed

text \<open>
  C4, as the code has it.  When \<open>verify_presentation\<close> returns, the record's \<open>verified\<close>
  field holds the JSON text of the boolean the verifier returned (the string \<open>true\<close> or
  \<open>false\<close>, not a boolean), the state is VERIFIED, and the record is persisted; the log
  shows the ledger calls, the verification, the save, and last the acknowledgement when
  there is a responder.  In any run, an acknowledgement in the log comes right after the
  save of the verified record.
\<close>

theorem verify_presentation_stores_json_text:
  "(verify_presentation env r w = (Inr r', w') \<longrightarrow>
      (\<exists>indy_proof S C b i.
          presentation r = Some indy_proof
          \<and> verifier_verify_presentation env (presentation_request r) indy_proof S C = Inr b
          \<and> verified r' = Some (PyStr (json_dumps b))
          \<and> state r' = Some STATE_VERIFIED
          \<and> map_of (store w') i = Some r'
          \<and> new_events w w'
              = map GetSchema (map id_schema_id (identifiers indy_proof))
                @ map GetCredentialDefinition (map id_cred_def_id (identifiers indy_proof))
                @ [VerifierVerifyPresentation, Persisted r' ''verify presentation'']
                @ (case responder_send_reply env of
                     None \<Rightarrow> []
                   | Some send_reply \<Rightarrow> [SendReply \<lparr>ack_thread_id = thread_id r\<rparr>])))
   \<and> (verify_presentation env r w = (res, w'') \<and> SendReply a \<in> set (new_events w w'') \<longrightarrow>
      (\<exists>saved evs i.
          new_events w w'' = evs @ [Persisted saved ''verify presentation'', SendReply a]
          \<and> state saved = Some STATE_VERIFIED
          \<and> map_of (store w'') i = Some saved))"
proof (intro conjI impI)
  assume run: "verify_presentation env r w = (Inr r', w')"
  from verify_presentation_cases [OF run]
  show "\<exists>indy_proof S C b i.
          presentation r = Some indy_proof
          \<and> verifier_verify_presentation env (presentation_request r) indy_proof S C = Inr b
          \<and> verified r' = Some (PyStr (json_dumps b))
          \<and> state r' = Some STATE_VERIFIED
          \<and> map_of (store w') i = Some r'
          \<and> new_events w w'
              = map GetSchema (map id_schema_id (identifiers indy_proof))
                @ map GetCredentialDefinition (map id_cred_def_id (identifiers indy_proof))
                @ [VerifierVerifyPresentation, Persisted r' ''verify presentation'']
                @ (case responder_send_reply env of
                     None \<Rightarrow> []
                   | Some send_reply \<Rightarrow> [SendReply \<lparr>ack_thread_id = thread_id r\<rparr>])"
  proof (elim disjE exE conjE)
    fix e :: error
    assume "Inr r' = Inl e"
    then show ?thesis by simp
  next
    fix indy_proof S C b i acked
    let ?saved = "r\<lparr>verified := Some (PyStr (json_dumps b)), state := Some STATE_VERIFIED,
                     presentation_exchange_id := Some i\<rparr>"
    assume p: "presentation r = Some indy_proof"
      and b: "verifier_verify_presentation env (presentation_request r) indy_proof S C = Inr b"
      and w': "w' = w\<lparr>store := AList.update i ?saved (store w),
                     journal := journal w
                       @ map GetSchema (map id_schema_id (identifiers indy_proof))
                       @ map GetCredentialDefinition (map id_cred_def_id (identifiers indy_proof))
                       @ [VerifierVerifyPresentation, Persisted ?saved ''verify presentation'']
                       @ (case responder_send_reply env of
                            None \<Rightarrow> []
                          | Some send_reply \<Rightarrow> [SendReply \<lparr>ack_thread_id = thread_id r\<rparr>])\<rparr>"
      and res: "Inr r' = (case acked of Inl e \<Rightarrow> Inl e | Inr u \<Rightarrow> Inr ?saved)"
    from res have r': "r' = ?saved"
      by (cases acked) simp_all
    show ?thesis
      using p b
      by (rule_tac x = indy_proof in exI, rule_tac x = S in exI, rule_tac x = C in exI,
          rule_tac x = b in exI, rule_tac x = i in exI)
        (simp add: r' w' AList.update_conv' new_events_def)
  qed
next
  assume "verify_presentation env r w = (res, w'') \<and> SendReply a \<in> set (new_events w w'')"
  then have run: "verify_presentation env r w = (res, w'')"
    and sent: "SendReply a \<in> set (new_events w w'')"
    by simp_all
  from verify_presentation_cases [OF run]
  show "\<exists>saved evs i.
          new_events w w'' = evs @ [Persisted saved ''verify presentation'', SendReply a]
          \<and> state saved = Some STATE_VERIFIED
          \<and> map_of (store w'') i = Some saved"
  proof (elim disjE exE conjE)
    fix e evs
    assume "w'' = w\<lparr>journal := journal w @ evs\<rparr>"
      and "\<forall>ev \<in> set evs. reply_sent ev = None \<and> persisted ev = None"
    with sent have False
      by (auto simp: new_events_def)
    then show ?thesis ..
  next
    fix indy_proof S C b i acked
    let ?saved = "r\<lparr>verified := Some (PyStr (json_dumps b)), state := Some STATE_VERIFIED,
                     presentation_exchange_id := Some i\<rparr>"
    assume w'': "w'' = w\<lparr>store := AList.update i ?saved (store w),
                     journal := journal w
                       @ map GetSchema (map id_schema_id (identifiers indy_proof))
                       @ map GetCredentialDefinition (map id_cred_def_id (identifiers indy_proof))
                       @ [VerifierVerifyPresentation, Persisted ?saved ''verify presentation'']
                       @ (case responder_send_reply env of
                            None \<Rightarrow> []
                          | Some send_reply \<Rightarrow> [SendReply \<lparr>ack_thread_id = thread_id r\<rparr>])\<rparr>"
    show ?thesis
    proof (cases "responder_send_reply env")
      case None
      with sent w'' have False
        by (auto simp: new_events_def)
      then show ?thesis ..
    next
      case (Some send_reply)
      with sent w'' have a: "a = \<lparr>ack_thread_id = thread_id r\<rparr>"
        by (auto simp: new_events_def)
      show ?thesis
        using Some
        by (rule_tac x = ?saved in exI,
            rule_tac x = "map GetSchema (map id_schema_id (identifiers indy_proof))
                @ map GetCredentialDefinition (map id_cred_def_id (identifiers indy_proof))
                @ [VerifierVerifyPresentation]" in exI,
            rule_tac x = i in exI)
          (simp add: w'' a AList.update_conv' new_events_def)
    qed
  qed
qed

text \<open>
  At the record of the example, whose verifier answers true, the field holds the
  string \<open>true\<close>, which is not the boolean.
\<close>

theorem verify_presentation_verified_is_not_boolean:
  "verifier_verify_presentation demo_env (presentation_request demo_received_record)
      (demo_proof ''21'') [(''S'', ''schema S'')] [(''D'', ''cred def D'')] = Inr True
   \<and> map_sum id verified (fst (verify_presentation demo_env demo_received_record demo_world))
       = Inr (Some (PyStr ''true''))
   \<and> map_sum id verified (fst (verify_presentation demo_env demo_received_record demo_world))
       \<noteq> Inr (Some (PyBool True))"
  by (simp add: verify_presentation_def demo_received_record_def demo_verifier_record_def
      demo_proof_def demo_env_def demo_world_def bnd_def save_def send_presentation_ack_def
      json_dumps_def Let_def)

theorem verify_presentation_stores_json_text_witness:
  "\<exists>r' w'. verify_presentation demo_env demo_received_record demo_world = (Inr r', w')
      \<and> verified r' = Some (PyStr ''true'')
      \<and> state r' = Some STATE_VERIFIED
      \<and> map_of (store w') 1 = Some r'
      \<and> new_events demo_world w'
          = [GetSchema ''S'', GetCredentialDefinition ''D'', VerifierVerifyPresentation,
             Persisted r' ''verify presentation'', SendReply \<lparr>ack_thread_id = ''thread-1''\<rparr>]"
proof -
  obtain r' w' where run: "verify_presentation demo_env demo_received_record demo_world = (Inr r', w')"
    by (simp add: verify_presentation_def demo_received_record_def demo_verifier_record_def
        demo_proof_def demo_env_def demo_world_def bnd_def save_def send_presentation_ack_def
        json_dumps_def Let_def)
  have sent: "SendReply \<lparr>ack_thread_id = ''thread-1''\<rparr> \<in> set (new_events demo_world w')"
    using run
    by (auto simp: verify_presentation_def demo_received_record_def demo_verifier_record_def
        demo_proof_def demo_env_def demo_world_def bnd_def save_def send_presentation_ack_def
        json_dumps_def Let_def new_events_def)
  have id1: "presentation_exchange_id r' = Some 1"
    using run
    by (auto simp: verify_presentation_def demo_received_record_def demo_verifier_record_def
        demo_proof_def demo_env_def demo_world_def bnd_def save_def send_presentation_ack_def
        json_dumps_def Let_def)
  from verify_presentation_stores_json_text
    [of demo_env demo_received_record demo_world r' w' "Inr r'" w'
        "\<lparr>ack_thread_id = ''thread-1''\<rparr>"] run sent
  obtain indy_proof S C b i where
    p: "presentation demo_received_record = Some indy_proof"
    and v: "verifier_verify_presentation demo_env (presentation_request demo_received_record)
           indy_proof S C = Inr b"
    and "verified r' = Some (PyStr (json_dumps b))"
    and "state r' = Some STATE_VERIFIED"
    and "map_of (store w') i = Some r'"
    and "new_events demo_world w'
              = map GetSchema (map id_schema_id (identifiers indy_proof))
                @ map GetCredentialDefinition (map id_cred_def_id (identifiers indy_proof))
                @ [VerifierVerifyPresentation, Persisted r' ''verify presentation'']
                @ (case responder_send_reply demo_env of
                     None \<Rightarrow> []
                   | Some send_reply \<Rightarrow> [SendReply \<lparr>ack_thread_id = thread_id demo_received_record\<rparr>])"
    by blast
  moreover from p have "indy_proof = demo_proof ''21''"
    by (simp add: demo_received_record_def)
  moreover from v have "b = True"
    by (simp add: demo_env_def)
  moreover have "map_of (store w') 1 = Some r'"
    using run
    by (auto simp: verify_presentation_def demo_received_record_def demo_verifier_record_def
        demo_proof_def demo_env_def demo_world_def bnd_def save_def send_presentation_ack_def
        json_dumps_def Let_def)
  ultimately show ?thesis
    using run
    by (rule_tac x = r' in exI, rule_tac x = w' in exI)
      (simp add: demo_received_record_def demo_verifier_record_def demo_proof_def demo_env_def
        json_dumps_def del: One_nat_def)
qed

section \<open>The log of a computation\<close>

lemma journal_split:
  "prefix (journal w) (journal w') \<Longrightarrow> journal w' = journal w @ new_events w w'"
  by (auto simp: prefix_def new_events_def)

lemma new_events_trans:
  assumes "prefix (journal w) (journal w1)" and "prefix (journal w1) (journal w')"
  shows "new_events w w' = new_events w w1 @ new_events w1 w'"
  using assms by (auto simp: prefix_def new_events_def)

lemma prefix_journal_trans:
  "prefix (journal w) (journal w1) \<Longrightarrow> prefix (journal w1) (journal w') \<Longrightarrow>
   prefix (journal w) (journal w')"
  by (rule prefix_order.trans)

lemma map_filter_append [simp]:
  "List.map_filter f (xs @ ys) = List.map_filter f xs @ List.map_filter f ys"
  by (simp add: List.map_filter_def)

lemma map_filter_none:
  "(\<And>x. x \<in> set xs \<Longrightarrow> f x = None) \<Longrightarrow> List.map_filter f xs = []"
  by (induction xs) (simp_all add: List.map_filter_simps)

lemma set_map_filter:
  "set (List.map_filter f xs) = {y. \<exists>x \<in> set xs. f x = Some y}"
  by (induction xs) (auto simp: List.map_filter_simps split: option.splits)

lemma update_absent:
  "map_of al k = None \<Longrightarrow> AList.update k v al = al @ [(k, v)]"
  by (induction al) (auto split: if_splits)

subsection \<open>Loops\<close>

text \<open>
  Each loop of \<open>create_presentation\<close> threads a state through the elements of a list.
  What every step does to the log, the loop does.
\<close>

lemma loop_events:
  fixes loop :: "'a list \<Rightarrow> 's \<Rightarrow> (world, 's) io"
  assumes nil: "\<And>s. loop [] s = ret s"
    and cons: "\<And>x xs s. loop (x # xs) s = bnd (step x s) (loop xs)"
    and step: "\<And>x s w res w'. step x s w = (res, w') \<Longrightarrow>
                 prefix (journal w) (journal w') \<and> (\<forall>e \<in> set (new_events w w'). K x e)"
    and run: "loop xs s w = (res, w')"
  shows "prefix (journal w) (journal w') \<and> (\<forall>e \<in> set (new_events w w'). \<exists>x \<in> set xs. K x e)"
  using run
proof (induction xs arbitrary: s w)
  case Nil
  then show ?case by (simp add: nil)
next
  case (Cons x xs)
  from Cons.prems have "bnd (step x s) (loop xs) w = (res, w')"
    by (simp add: cons)
  then show ?case
  proof (cases rule: bndE)
    case (failed e)
    from step [OF failed(1)] show ?thesis by auto
  next
    case (returned s1 w1)
    from step [OF returned(1)] Cons.IH [OF returned(2)]
    show ?thesis
      by (auto simp: new_events_trans [of w w1 w'] intro: prefix_journal_trans)
  qed
qed

text \<open>
  A loop that looks a key up only when its dictionary lacks the key issues every lookup
  at most once: \<open>keys\<close> reads the keys of the dictionary off the state, \<open>proj\<close> the key
  of a lookup off an event.
\<close>

lemma loop_distinct:
  fixes loop :: "'a list \<Rightarrow> 's \<Rightarrow> (world, 's) io"
  assumes nil: "\<And>s. loop [] s = ret s"
    and cons: "\<And>x xs s. loop (x # xs) s = bnd (step x s) (loop xs)"
    and step: "\<And>x s w res w'. step x s w = (res, w') \<Longrightarrow>
                 prefix (journal w) (journal w')
                 \<and> distinct (List.map_filter proj (new_events w w'))
                 \<and> set (List.map_filter proj (new_events w w')) \<inter> keys s = {}
                 \<and> (\<forall>s'. res = Inr s' \<longrightarrow>
                       keys s' = keys s \<union> set (List.map_filter proj (new_events w w')))"
    and run: "loop xs s w = (res, w')"
  shows "prefix (journal w) (journal w')
         \<and> distinct (List.map_filter proj (new_events w w'))
         \<and> set (List.map_filter proj (new_events w w')) \<inter> keys s = {}
         \<and> (\<forall>s'. res = Inr s' \<longrightarrow>
               keys s' = keys s \<union> set (List.map_filter proj (new_events w w')))"
  using run
proof (induction xs arbitrary: s w)
  case Nil
  then show ?case by (auto simp: nil)
next
  case (Cons x xs)
  from Cons.prems have "bnd (step x s) (loop xs) w = (res, w')"
    by (simp add: cons)
  then show ?case
  proof (cases rule: bndE)
    case (failed e)
    from step [OF failed(1)] failed(2) show ?thesis by simp
  next
    case (returned s1 w1)
    note one = step [OF returned(1)]
    note rest = Cons.IH [OF returned(2)]
    from one rest have ne: "new_events w w' = new_events w w1 @ new_events w1 w'"
      by (simp add: new_events_trans)
    from one have k1: "keys s1 = keys s \<union> set (List.map_filter proj (new_events w w1))"
      by simp
    from one rest show ?thesis
      unfolding ne k1 by (auto intro: prefix_journal_trans)
  qed
qed

text \<open>What a successful loop keeps true of its state.\<close>

lemma loop_invariant:
  fixes loop :: "'a list \<Rightarrow> 's \<Rightarrow> (world, 's) io"
  assumes nil: "\<And>s. loop [] s = ret s"
    and cons: "\<And>x xs s. loop (x # xs) s = bnd (step x s) (loop xs)"
    and step: "\<And>x s w s' w'. step x s w = (Inr s', w') \<Longrightarrow> I s \<Longrightarrow> I s'"
    and run: "loop xs s w = (Inr s', w')"
    and init: "I s"
  shows "I s'"
  using run init
proof (induction xs arbitrary: s w)
  case Nil
  then show ?case by (simp add: nil)
next
  case (Cons x xs)
  from Cons.prems(1) have "bnd (step x s) (loop xs) w = (Inr s', w')"
    by (simp add: cons)
  then show ?case
  proof (cases rule: bndE)
    case (failed e)
    then show ?thesis by simp
  next
    case (returned s1 w1)
    from step [OF returned(1) Cons.prems(2)] Cons.IH [OF returned(2)]
    show ?thesis by simp
  qed
qed

subsection \<open>Lookups of missing keys\<close>

lemma fetch_missing_cases:
  assumes "fetch_missing ev get k d w = (res, w')"
  obtains (present) "map_of d k \<noteq> None" and "res = Inr d" and "w' = w"
        | (failed) e where "map_of d k = None" and "get = Inl e" and "res = Inl e"
            and "w' = w\<lparr>journal := journal w @ [ev]\<rparr>"
        | (fetched) v where "map_of d k = None" and "get = Inr v" and "res = Inr (d @ [(k, v)])"
            and "w' = w\<lparr>journal := journal w @ [ev]\<rparr>"
  using assms
  by (cases get) (auto simp: fetch_missing_def bnd_def update_absent split: if_splits)

lemma dom_append_one [simp]:
  "dom (map_of (d @ [(k, v)])) = insert k (dom (map_of d))"
  by (auto simp: map_add_Some_iff split: if_splits)

lemma fetch_missing_log:
  assumes "fetch_missing ev get k d w = (res, w')"
  shows "prefix (journal w) (journal w')
         \<and> (new_events w w' = [] \<and> map_of d k \<noteq> None \<or> new_events w w' = [ev] \<and> map_of d k = None)
         \<and> store w' = store w \<and> local_tails w' = local_tails w
         \<and> (\<forall>d'. res = Inr d' \<longrightarrow>
               dom (map_of d') = insert k (dom (map_of d))
               \<and> (d' = d \<or> (\<exists>v. get = Inr v \<and> d' = d @ [(k, v)])))"
  using assms
  by (cases rule: fetch_missing_cases) (auto simp: new_events_def)

section \<open>The key of a revocation delta determines its lookup\<close>

lemma digit_cases:
  assumes "d < (10::nat)"
  shows "d \<in> {0, 1, 2, 3, 4, 5, 6, 7, 8, 9}"
  using assms by auto

lemma digit_char_values:
  "digit_char 0 = CHR ''0''" "digit_char 1 = CHR ''1''" "digit_char 2 = CHR ''2''"
  "digit_char 3 = CHR ''3''" "digit_char 4 = CHR ''4''" "digit_char 5 = CHR ''5''"
  "digit_char 6 = CHR ''6''" "digit_char 7 = CHR ''7''" "digit_char 8 = CHR ''8''"
  "digit_char 9 = CHR ''9''" "digit_char (Suc 0) = CHR ''1''"
  by (simp_all add: digit_char_def eval_nat_numeral)

lemma digit_char_inj:
  assumes "a < 10" and "b < 10" and "digit_char a = digit_char b"
  shows "a = b"
  using digit_cases [OF assms(1)] digit_cases [OF assms(2)] assms(3)
  by (auto simp: digit_char_values)

lemma digit_char_plain:
  assumes "a < 10"
  shows "digit_char a \<noteq> CHR ''_'' \<and> digit_char a \<noteq> CHR ''-''"
  using digit_cases [OF assms] by (auto simp: digit_char_values)

lemma str_nat_plain:
  "c \<in> set (str_nat n) \<Longrightarrow> c \<noteq> CHR ''_'' \<and> c \<noteq> CHR ''-''"
proof (induction n rule: str_nat.induct)
  case (1 n)
  show ?case
  proof (cases "n < 10")
    case True
    with "1.prems" digit_char_plain [of n] show ?thesis
      by (simp add: str_nat.simps [of n])
  next
    case False
    with "1.prems" "1.IH" digit_char_plain [of "n mod 10"] show ?thesis
      by (auto simp: str_nat.simps [of n])
  qed
qed

lemma str_nat_length:
  "length (str_nat n) = 1 \<longleftrightarrow> n < 10"
proof (cases "n < 10")
  case True
  then show ?thesis by (simp add: str_nat.simps [of n])
next
  case False
  have "str_nat (n div 10) \<noteq> []"
    by (simp add: str_nat.simps [of "n div 10"])
  with False show ?thesis
    by (simp add: str_nat.simps [of n])
qed

lemma str_nat_inj:
  "str_nat a = str_nat b \<Longrightarrow> a = b"
proof (induction a arbitrary: b rule: str_nat.induct)
  case (1 a)
  show ?case
  proof (cases "a < 10")
    case True
    with "1.prems" str_nat_length [of a] str_nat_length [of b] have "b < 10"
      by simp
    with True "1.prems" show ?thesis
      by (simp add: str_nat.simps [of a] str_nat.simps [of b] digit_char_inj)
  next
    case False
    with "1.prems" str_nat_length [of a] str_nat_length [of b] have b: "\<not> b < 10"
      by simp
    with False "1.prems"
    have "str_nat (a div 10) = str_nat (b div 10)"
      and "digit_char (a mod 10) = digit_char (b mod 10)"
      by (simp_all add: str_nat.simps [of a] str_nat.simps [of b])
    with "1.IH" [OF False] have "a div 10 = b div 10" and "a mod 10 = b mod 10"
      by (simp_all add: digit_char_inj)
    then show ?thesis
      by (metis div_mult_mod_eq)
  qed
qed

lemma str_int_plain: "CHR ''_'' \<notin> set (str_int i)"
  using str_nat_plain by (auto simp: str_int_def)

lemma str_int_inj:
  assumes "str_int i = str_int j"
  shows "i = j"
proof -
  have head: "hd (str_nat n) \<noteq> CHR ''-''" for n
    using str_nat_plain [of "hd (str_nat n)" n] str_nat_length [of n]
    by (cases "str_nat n") (auto simp: str_nat.simps [of n])
  show ?thesis
  proof (cases "i < 0")
    case True
    show ?thesis
    proof (cases "j < 0")
      case j: True
      with True assms have "str_nat (nat (- i)) = str_nat (nat (- j))"
        by (simp add: str_int_def)
      with True j show ?thesis
        by (auto dest: str_nat_inj)
    next
      case False
      with True assms have "CHR ''-'' # str_nat (nat (- i)) = str_nat (nat j)"
        by (simp add: str_int_def)
      with head [of "nat j"] show ?thesis
        by (metis list.sel(1))
    qed
  next
    case False
    show ?thesis
    proof (cases "j < 0")
      case True
      with False assms have "str_nat (nat i) = CHR ''-'' # str_nat (nat (- j))"
        by (simp add: str_int_def)
      with head [of "nat i"] show ?thesis
        by (metis list.sel(1))
    next
      case j: False
      with False assms have "str_nat (nat i) = str_nat (nat j)"
        by (simp add: str_int_def)
      with False j show ?thesis
        by (auto dest: str_nat_inj)
    qed
  qed
qed

lemma last_separator:
  assumes "c \<notin> set t1" and "c \<notin> set t2" and "x @ c # t1 = y @ c # t2"
  shows "x = y \<and> t1 = t2"
  using assms
proof (induction x arbitrary: y)
  case Nil
  then show ?case by (cases y) auto
next
  case (Cons a x)
  then show ?case by (cases y) auto
qed

lemma revoc_reg_delta_key_inj:
  assumes "revoc_reg_delta_key rid f t = revoc_reg_delta_key rid' f' t'"
  shows "rid = rid' \<and> f = f' \<and> t = t'"
proof -
  from assms
  have "(rid @ CHR ''_'' # str_int f) @ CHR ''_'' # str_int t
        = (rid' @ CHR ''_'' # str_int f') @ CHR ''_'' # str_int t'"
    by (simp add: revoc_reg_delta_key_def)
  from last_separator [OF str_int_plain str_int_plain this]
  have inner: "rid @ CHR ''_'' # str_int f = rid' @ CHR ''_'' # str_int f'"
    and last: "str_int t = str_int t'"
    by simp_all
  from last_separator [OF str_int_plain str_int_plain inner] last
  show ?thesis
    by (auto dest: str_int_inj)
qed

section \<open>The stages of \<open>create_presentation\<close>\<close>

subsection \<open>Resolving the credentials\<close>

lemma get_credential_log:
  assumes "get_credential env r creds w = (res, w')"
  shows "prefix (journal w) (journal w')
         \<and> (\<forall>e \<in> set (new_events w w'). stage_of e = CredentialStage)"
  using fetch_missing_log [OF assms [unfolded get_credential_def]] by auto

lemma get_credentials_log:
  assumes "get_credentials env rs creds w = (res, w')"
  shows "prefix (journal w) (journal w')
         \<and> (\<forall>e \<in> set (new_events w w'). stage_of e = CredentialStage)"
proof -
  have "prefix (journal w) (journal w')
        \<and> (\<forall>e \<in> set (new_events w w'). \<exists>x \<in> set rs. stage_of e = CredentialStage)"
    by (rule loop_events [where loop = "get_credentials env" and step = "get_credential env"])
      (simp, simp, erule get_credential_log, rule assms)
  then show ?thesis by blast
qed

lemma get_credentials_entries:
  "get_credentials env rs creds w = (Inr creds', w') \<Longrightarrow>
   set creds' \<subseteq> set creds
     \<union> {(i, c). i \<in> ref_cred_id ` set rs \<and> holder_get_credential env i = Inr c}"
proof (induction rs arbitrary: creds w)
  case Nil
  then show ?case by simp
next
  case (Cons r rs)
  from Cons.prems
  have "bnd (get_credential env r creds) (get_credentials env rs) w = (Inr creds', w')"
    by simp
  then show ?case
  proof (cases rule: bndE)
    case (failed e)
    then show ?thesis by simp
  next
    case (returned creds1 w1)
    from fetch_missing_log [OF returned(1) [unfolded get_credential_def]]
    have "creds1 = creds
          \<or> (\<exists>c. holder_get_credential env (ref_cred_id r) = Inr c
                 \<and> creds1 = creds @ [(ref_cred_id r, c)])"
      by simp
    with Cons.IH [OF returned(2)] show ?thesis
      by auto
  qed
qed

lemma get_credentials_keys:
  "get_credentials env rs creds w = (Inr creds', w') \<Longrightarrow>
   dom (map_of creds') = dom (map_of creds) \<union> ref_cred_id ` set rs"
proof (induction rs arbitrary: creds w)
  case Nil
  then show ?case by simp
next
  case (Cons r rs)
  from Cons.prems
  have "bnd (get_credential env r creds) (get_credentials env rs) w = (Inr creds', w')"
    by simp
  then show ?case
  proof (cases rule: bndE)
    case (failed e)
    then show ?thesis by simp
  next
    case (returned creds1 w1)
    from fetch_missing_log [OF returned(1) [unfolded get_credential_def]]
    have "dom (map_of creds1) = insert (ref_cred_id r) (dom (map_of creds))"
      by simp
    with Cons.IH [OF returned(2)] show ?thesis
      by auto
  qed
qed

subsection \<open>Resolving schemas, credential definitions and registries\<close>

lemma resolve_credential_log:
  assumes "resolve_credential env c objs w = (res, w')"
  shows "prefix (journal w) (journal w')
         \<and> (\<forall>e \<in> set (new_events w w').
               stage_of e = LedgerStage
               \<and> (\<forall>rid. rev_reg_def_fetch e = Some rid \<longrightarrow> rid \<noteq> [] \<and> rev_reg_id c = Some rid))"
  using assms
  apply (simp add: resolve_credential_def)
  apply (elim bndE)
  apply (auto elim!: fetch_missing_cases simp: new_events_def split: option.splits if_splits)
  done

lemma resolve_credential_schemas:
  assumes "resolve_credential env c objs w = (res, w')"
  shows "prefix (journal w) (journal w')
         \<and> distinct (List.map_filter schema_fetch (new_events w w'))
         \<and> set (List.map_filter schema_fetch (new_events w w')) \<inter> dom (map_of (schemas objs)) = {}
         \<and> (\<forall>objs'. res = Inr objs' \<longrightarrow>
               dom (map_of (schemas objs'))
               = dom (map_of (schemas objs)) \<union> set (List.map_filter schema_fetch (new_events w w')))"
  using assms
  apply (simp add: resolve_credential_def)
  apply (elim bndE)
  apply (auto elim!: fetch_missing_cases simp: new_events_def List.map_filter_simps map_add_def
      split: option.splits if_splits)
  done

lemma resolve_credential_cred_defs:
  assumes "resolve_credential env c objs w = (res, w')"
  shows "prefix (journal w) (journal w')
         \<and> distinct (List.map_filter cred_def_fetch (new_events w w'))
         \<and> set (List.map_filter cred_def_fetch (new_events w w'))
             \<inter> dom (map_of (credential_definitions objs)) = {}
         \<and> (\<forall>objs'. res = Inr objs' \<longrightarrow>
               dom (map_of (credential_definitions objs'))
               = dom (map_of (credential_definitions objs))
                 \<union> set (List.map_filter cred_def_fetch (new_events w w')))"
  using assms
  apply (simp add: resolve_credential_def)
  apply (elim bndE)
  apply (auto elim!: fetch_missing_cases simp: new_events_def List.map_filter_simps map_add_def
      split: option.splits if_splits)
  done

lemma resolve_credential_registries:
  assumes "resolve_credential env c objs w = (res, w')"
  shows "prefix (journal w) (journal w')
         \<and> distinct (List.map_filter rev_reg_def_fetch (new_events w w'))
         \<and> set (List.map_filter rev_reg_def_fetch (new_events w w'))
             \<inter> dom (map_of (revocation_registries objs)) = {}
         \<and> (\<forall>objs'. res = Inr objs' \<longrightarrow>
               dom (map_of (revocation_registries objs'))
               = dom (map_of (revocation_registries objs))
                 \<union> set (List.map_filter rev_reg_def_fetch (new_events w w')))"
  using assms
  apply (simp add: resolve_credential_def)
  apply (elim bndE)
  apply (auto elim!: fetch_missing_cases simp: new_events_def List.map_filter_simps map_add_def
      split: option.splits if_splits)
  done

lemma resolve_credentials_log:
  assumes "resolve_credentials env cs objs w = (res, w')"
  shows "prefix (journal w) (journal w')
         \<and> (\<forall>e \<in> set (new_events w w').
               stage_of e = LedgerStage
               \<and> (\<forall>rid. rev_reg_def_fetch e = Some rid \<longrightarrow> rid \<in> revocable_ids cs))"
proof -
  have "prefix (journal w) (journal w')
        \<and> (\<forall>e \<in> set (new_events w w'). \<exists>c \<in> set cs.
               stage_of e = LedgerStage
               \<and> (\<forall>rid. rev_reg_def_fetch e = Some rid \<longrightarrow> rid \<noteq> [] \<and> rev_reg_id c = Some rid))"
    by (rule loop_events [where loop = "resolve_credentials env" and step = "resolve_credential env"])
      (simp, simp, erule resolve_credential_log, rule assms)
  then show ?thesis
    by (fastforce simp: revocable_ids_def)
qed

lemma resolve_credentials_schemas:
  assumes "resolve_credentials env cs objs w = (res, w')"
  shows "distinct (schema_fetches (new_events w w'))
         \<and> set (schema_fetches (new_events w w')) \<inter> dom (map_of (schemas objs)) = {}"
  using loop_distinct [where loop = "resolve_credentials env" and step = "resolve_credential env"
      and proj = schema_fetch and keys = "\<lambda>objs. dom (map_of (schemas objs))",
      OF _ _ resolve_credential_schemas assms]
  by (simp add: schema_fetches_def)

lemma resolve_credentials_cred_defs:
  assumes "resolve_credentials env cs objs w = (res, w')"
  shows "distinct (cred_def_fetches (new_events w w'))
         \<and> set (cred_def_fetches (new_events w w')) \<inter> dom (map_of (credential_definitions objs)) = {}"
  using loop_distinct [where loop = "resolve_credentials env" and step = "resolve_credential env"
      and proj = cred_def_fetch and keys = "\<lambda>objs. dom (map_of (credential_definitions objs))",
      OF _ _ resolve_credential_cred_defs assms]
  by (simp add: cred_def_fetches_def)

lemma resolve_credentials_registries:
  assumes "resolve_credentials env cs objs w = (res, w')"
  shows "distinct (rev_reg_def_fetches (new_events w w'))
         \<and> set (rev_reg_def_fetches (new_events w w')) \<inter> dom (map_of (revocation_registries objs)) = {}"
  using loop_distinct [where loop = "resolve_credentials env" and step = "resolve_credential env"
      and proj = rev_reg_def_fetch and keys = "\<lambda>objs. dom (map_of (revocation_registries objs))",
      OF _ _ resolve_credential_registries assms]
  by (simp add: rev_reg_def_fetches_def)

subsection \<open>Fetching the revocation deltas\<close>

text \<open>The ways one turn of the loop over the referents can go.\<close>

lemma fetch_delta_cases:
  assumes "fetch_delta env creds r (nrt, deltas) w = (res, w')"
  obtains
    (unknown) "map_of creds (ref_cred_id r) = None" and "res = Inl (KeyError (ref_cred_id r))"
      and "w' = w"
  | (skipped) c where "map_of creds (ref_cred_id r) = Some c"
      and "rev_reg_id c = None \<or> rev_reg_id c = Some [] \<or> \<not> truthy_interval (deciding_interval r nrt)"
      and "res = Inr (nrt, deltas)" and "w' = w"
  | (no_window) c rid where "map_of creds (ref_cred_id r) = Some c" and "rev_reg_id c = Some rid"
      and "rid \<noteq> []" and "truthy_interval (deciding_interval r nrt)" and "nrt = None"
      and "res = Inl TypeError" and "w' = w"
  | (known) c rid i f t where "map_of creds (ref_cred_id r) = Some c" and "rev_reg_id c = Some rid"
      and "rid \<noteq> []" and "truthy_interval (deciding_interval r nrt)" and "nrt = Some i"
      and "window_bounds (current_time env) i = (f, t)"
      and "map_of deltas (revoc_reg_delta_key rid f t) \<noteq> None"
      and "res = Inr (Some (i\<lparr>nr_from := Some f, nr_to := Some t\<rparr>), deltas)" and "w' = w"
  | (failed) c rid i f t e where "map_of creds (ref_cred_id r) = Some c"
      and "rev_reg_id c = Some rid"
      and "rid \<noteq> []" and "truthy_interval (deciding_interval r nrt)" and "nrt = Some i"
      and "window_bounds (current_time env) i = (f, t)"
      and "map_of deltas (revoc_reg_delta_key rid f t) = None"
      and "ledger_get_revoc_reg_delta env rid f t = Inl e"
      and "res = Inl e" and "w' = w\<lparr>journal := journal w @ [GetRevocRegDelta rid f t]\<rparr>"
  | (fetched) c rid i f t delta ts where "map_of creds (ref_cred_id r) = Some c"
      and "rev_reg_id c = Some rid"
      and "rid \<noteq> []" and "truthy_interval (deciding_interval r nrt)" and "nrt = Some i"
      and "window_bounds (current_time env) i = (f, t)"
      and "map_of deltas (revoc_reg_delta_key rid f t) = None"
      and "ledger_get_revoc_reg_delta env rid f t = Inr (delta, ts)"
      and "res = Inr (Some (i\<lparr>nr_from := Some f, nr_to := Some t\<rparr>),
                      deltas @ [(revoc_reg_delta_key rid f t, (rid, ref_cred_id r, delta, ts))])"
      and "w' = w\<lparr>journal := journal w @ [GetRevocRegDelta rid f t]\<rparr>"
proof (cases "map_of creds (ref_cred_id r)")
  case None
  with assms unknown show ?thesis
    by (simp add: fetch_delta_def)
next
  case (Some c)
  note c = this
  show ?thesis
  proof (cases "rev_reg_id c = None \<or> rev_reg_id c = Some []
                \<or> \<not> truthy_interval (deciding_interval r nrt)")
    case True
    have "res = Inr (nrt, deltas) \<and> w' = w"
    proof (cases "rev_reg_id c")
      case None
      from None c assms show ?thesis
        by (simp add: fetch_delta_def)
    next
      case (Some rid)
      show ?thesis
      proof (cases "rid = []")
        case True
        from True c Some assms show ?thesis
          by (simp add: fetch_delta_def)
      next
        case False
        with True Some
        have "\<not> truthy_interval (case ref_non_revoked r of
                                     None \<Rightarrow> nrt | Some own \<Rightarrow> Some own)"
          by (simp add: deciding_interval_def)
        from this c Some False assms show ?thesis
          by (simp add: fetch_delta_def)
      qed
    qed
    with skipped [OF c True] show ?thesis by simp
  next
    case False
    then obtain rid where rid: "rev_reg_id c = Some rid" "rid \<noteq> []"
      and truthy: "truthy_interval (deciding_interval r nrt)"
      by auto
    from truthy have truthy': "truthy_interval (case ref_non_revoked r of
                                                  None \<Rightarrow> nrt | Some own \<Rightarrow> Some own)"
      by (simp add: deciding_interval_def)
    show ?thesis
    proof (cases nrt)
      case None
      from truthy None
      have "truthy_interval (case ref_non_revoked r of None \<Rightarrow> None | Some own \<Rightarrow> Some own)"
        by (simp add: deciding_interval_def)
      with c rid assms [unfolded None] have "res = Inl TypeError" and "w' = w"
        by (simp_all add: fetch_delta_def)
      with no_window [OF c rid truthy None] show ?thesis by simp
    next
      case (Some i)
      note i = this
      from truthy i
      have truthy'': "truthy_interval (case ref_non_revoked r of
                                        None \<Rightarrow> Some i | Some own \<Rightarrow> Some own)"
        by (simp add: deciding_interval_def)
      note run0 = assms [unfolded i]
      obtain f t where ft: "window_bounds (current_time env) i = (f, t)"
        by (cases "window_bounds (current_time env) i") simp
      then have f: "(case nr_from i of None \<Rightarrow> 0 | Some x \<Rightarrow> x) = f"
        and t: "(case nr_to i of None \<Rightarrow> current_time env | Some x \<Rightarrow> x) = t"
        by (simp_all add: window_bounds_def)
      show ?thesis
      proof (cases "map_of deltas (revoc_reg_delta_key rid f t)")
        case (Some entry)
        from Some have "map_of deltas (revoc_reg_delta_key rid f t) \<noteq> None"
          by simp
        from this c rid truthy'' f t run0
        have "res = Inr (Some (i\<lparr>nr_from := Some f, nr_to := Some t\<rparr>), deltas)" and "w' = w"
          by (simp_all add: fetch_delta_def Let_def)
        with known [OF c rid truthy i ft] Some show ?thesis by simp
      next
        case None
        note absent = this
        from c rid truthy'' f t absent run0
        have run: "bnd (call (GetRevocRegDelta rid f t) (ledger_get_revoc_reg_delta env rid f t))
                     (\<lambda>(delta, delta_timestamp).
                        ret (Some (i\<lparr>nr_from := Some f, nr_to := Some t\<rparr>),
                             AList.update (revoc_reg_delta_key rid f t)
                               (rid, ref_cred_id r, delta, delta_timestamp) deltas)) w
                   = (res, w')"
          by (simp add: fetch_delta_def Let_def)
        show ?thesis
        proof (cases "ledger_get_revoc_reg_delta env rid f t")
          case (Inl e)
          with run have "res = Inl e" and "w' = w\<lparr>journal := journal w @ [GetRevocRegDelta rid f t]\<rparr>"
            by (simp_all add: bnd_def)
          with failed [OF c rid truthy i ft absent Inl] show ?thesis by simp
        next
          case (Inr answer)
          obtain delta ts where answer: "answer = (delta, ts)"
            by (cases answer) simp
          with run Inr absent
          have "res = Inr (Some (i\<lparr>nr_from := Some f, nr_to := Some t\<rparr>),
                      deltas @ [(revoc_reg_delta_key rid f t, (rid, ref_cred_id r, delta, ts))])"
            and "w' = w\<lparr>journal := journal w @ [GetRevocRegDelta rid f t]\<rparr>"
            by (simp_all add: bnd_def update_absent)
          with fetched [OF c rid truthy i ft absent Inr [unfolded answer]] show ?thesis by simp
        qed
      qed
    qed
  qed
qed

lemma fetch_delta_log:
  assumes "fetch_delta env creds r st w = (res, w')"
  shows "prefix (journal w) (journal w')
         \<and> (\<forall>e \<in> set (new_events w w').
               stage_of e = DeltaStage
               \<and> (\<forall>rid f t. delta_fetch e = Some (rid, f, t) \<longrightarrow>
                     rid \<in> revocable_ids (map snd creds)))"
proof -
  obtain nrt deltas where st: "st = (nrt, deltas)"
    by (cases st)
  from assms [unfolded st] show ?thesis
    by (cases rule: fetch_delta_cases)
      (auto simp: new_events_def revocable_ids_def dest!: map_of_SomeD intro!: bexI)
qed

lemma fetch_deltas_log:
  assumes "fetch_deltas env creds rs st w = (res, w')"
  shows "prefix (journal w) (journal w')
         \<and> (\<forall>e \<in> set (new_events w w').
               stage_of e = DeltaStage
               \<and> (\<forall>rid f t. delta_fetch e = Some (rid, f, t) \<longrightarrow>
                     rid \<in> revocable_ids (map snd creds)))"
proof -
  have "prefix (journal w) (journal w')
        \<and> (\<forall>e \<in> set (new_events w w'). \<exists>r \<in> set rs.
               stage_of e = DeltaStage
               \<and> (\<forall>rid f t. delta_fetch e = Some (rid, f, t) \<longrightarrow>
                     rid \<in> revocable_ids (map snd creds)))"
    by (rule loop_events [where loop = "fetch_deltas env creds" and step = "fetch_delta env creds"])
      (simp, simp, erule fetch_delta_log, rule assms)
  then show ?thesis by blast
qed

text \<open>The key under which the loop files the answer to a delta lookup.\<close>

lemma fetch_delta_keys:
  assumes "fetch_delta env creds r st w = (res, w')"
  shows "prefix (journal w) (journal w')
         \<and> distinct (List.map_filter
               (\<lambda>e. map_option (\<lambda>(rid, f, t). revoc_reg_delta_key rid f t) (delta_fetch e))
               (new_events w w'))
         \<and> set (List.map_filter
               (\<lambda>e. map_option (\<lambda>(rid, f, t). revoc_reg_delta_key rid f t) (delta_fetch e))
               (new_events w w')) \<inter> dom (map_of (snd st)) = {}
         \<and> (\<forall>st'. res = Inr st' \<longrightarrow>
               dom (map_of (snd st'))
               = dom (map_of (snd st))
                 \<union> set (List.map_filter
                     (\<lambda>e. map_option (\<lambda>(rid, f, t). revoc_reg_delta_key rid f t) (delta_fetch e))
                     (new_events w w')))"
proof -
  obtain nrt deltas where st: "st = (nrt, deltas)"
    by (cases st)
  from assms [unfolded st] show ?thesis
    by (cases rule: fetch_delta_cases)
      (auto simp: new_events_def st List.map_filter_simps)
qed

lemma fetch_deltas_keys:
  assumes "fetch_deltas env creds rs st w = (res, w')"
  shows "distinct (List.map_filter
               (\<lambda>e. map_option (\<lambda>(rid, f, t). revoc_reg_delta_key rid f t) (delta_fetch e))
               (new_events w w'))
         \<and> (\<forall>st'. res = Inr st' \<longrightarrow>
               dom (map_of (snd st'))
               = dom (map_of (snd st))
                 \<union> set (List.map_filter
                     (\<lambda>e. map_option (\<lambda>(rid, f, t). revoc_reg_delta_key rid f t) (delta_fetch e))
                     (new_events w w')))"
  using loop_distinct [where loop = "fetch_deltas env creds" and step = "fetch_delta env creds"
      and proj = "\<lambda>e. map_option (\<lambda>(rid, f, t). revoc_reg_delta_key rid f t) (delta_fetch e)"
      and keys = "\<lambda>st. dom (map_of (snd st))",
      OF _ _ fetch_delta_keys assms]
  by simp

lemma delta_keys_of_fetches:
  "List.map_filter
     (\<lambda>e. map_option (\<lambda>(rid, f, t). revoc_reg_delta_key rid f t) (delta_fetch e)) evs
   = map (\<lambda>(rid, f, t). revoc_reg_delta_key rid f t) (delta_fetches evs)"
  by (induction evs) (auto simp: delta_fetches_def List.map_filter_simps split: option.splits)

lemma fetch_deltas_distinct:
  assumes "fetch_deltas env creds rs st w = (res, w')"
  shows "distinct (delta_fetches (new_events w w'))"
  using fetch_deltas_keys [OF assms]
  by (simp add: delta_keys_of_fetches distinct_map)

lemma fetch_delta_covers:
  assumes "fetch_delta env creds r (nrt, deltas) w = (Inr (nrt', deltas'), w')"
  shows "map_option (window_bounds (current_time env)) nrt'
           = map_option (window_bounds (current_time env)) nrt
         \<and> (\<forall>r2. truthy_interval (deciding_interval r2 nrt)
                 \<longrightarrow> truthy_interval (deciding_interval r2 nrt'))
         \<and> (\<forall>c rid. map_of creds (ref_cred_id r) = Some c \<and> rev_reg_id c = Some rid \<and> rid \<noteq> []
                 \<and> truthy_interval (deciding_interval r nrt)
               \<longrightarrow> (\<exists>i f t. nrt = Some i \<and> window_bounds (current_time env) i = (f, t)
                      \<and> revoc_reg_delta_key rid f t \<in> dom (map_of deltas')))"
  using assms
  by (cases rule: fetch_delta_cases)
    (auto simp: window_bounds_def deciding_interval_def truthy_interval_def split: option.splits)

lemma fetch_deltas_covers:
  assumes "fetch_deltas env creds rs (nrt, deltas) w = (Inr (nrt', deltas'), w')"
  shows "dom (map_of deltas) \<subseteq> dom (map_of deltas')
         \<and> map_option (window_bounds (current_time env)) nrt'
             = map_option (window_bounds (current_time env)) nrt
         \<and> (\<forall>r2. truthy_interval (deciding_interval r2 nrt)
                 \<longrightarrow> truthy_interval (deciding_interval r2 nrt'))
         \<and> (\<forall>r \<in> set rs. \<forall>c rid.
               map_of creds (ref_cred_id r) = Some c \<and> rev_reg_id c = Some rid \<and> rid \<noteq> []
                 \<and> truthy_interval (deciding_interval r nrt)
               \<longrightarrow> (\<exists>i f t. nrt = Some i \<and> window_bounds (current_time env) i = (f, t)
                      \<and> revoc_reg_delta_key rid f t \<in> dom (map_of deltas')))"
  using assms
proof (induction rs arbitrary: nrt deltas w)
  case Nil
  then show ?case by simp
next
  case (Cons r rs)
  from Cons.prems
  have "bnd (fetch_delta env creds r (nrt, deltas)) (fetch_deltas env creds rs) w
          = (Inr (nrt', deltas'), w')"
    by simp
  then show ?case
  proof (cases rule: bndE)
    case (failed e)
    then show ?thesis by simp
  next
    case (returned st1 w1)
    obtain nrt1 deltas1 where st1: "st1 = (nrt1, deltas1)"
      by (cases st1)
    note one = fetch_delta_covers [OF returned(1) [unfolded st1]]
    note one_bounds = one [THEN conjunct1]
    note one_truthy = one [THEN conjunct2, THEN conjunct1, rule_format]
    note one_covers = one [THEN conjunct2, THEN conjunct2, rule_format]
    note grow = fetch_delta_keys [OF returned(1)]
    note rest = Cons.IH [OF returned(2) [unfolded st1]]
    note rest_sub = rest [THEN conjunct1]
    note rest_bounds = rest [THEN conjunct2, THEN conjunct1]
    note rest_truthy = rest [THEN conjunct2, THEN conjunct2, THEN conjunct1, rule_format]
    note rest_covers = rest [THEN conjunct2, THEN conjunct2, THEN conjunct2, rule_format]
    from grow st1 have sub1: "dom (map_of deltas) \<subseteq> dom (map_of deltas1)"
      by auto
    from sub1 rest_sub have sub: "dom (map_of deltas) \<subseteq> dom (map_of deltas')"
      by (rule subset_trans)
    from one_bounds rest_bounds
    have bounds: "map_option (window_bounds (current_time env)) nrt'
             = map_option (window_bounds (current_time env)) nrt"
      by simp
    have truthy: "\<forall>r2. truthy_interval (deciding_interval r2 nrt)
                 \<longrightarrow> truthy_interval (deciding_interval r2 nrt')"
      using one_truthy rest_truthy by simp
    have covers: "\<exists>i f t. nrt = Some i \<and> window_bounds (current_time env) i = (f, t)
                      \<and> revoc_reg_delta_key rid f t \<in> dom (map_of deltas')"
      if x: "x \<in> set (r # rs)" and c: "map_of creds (ref_cred_id x) = Some c"
        and rid: "rev_reg_id c = Some rid" "rid \<noteq> []"
        and tr: "truthy_interval (deciding_interval x nrt)" for x c rid
    proof (cases "x = r")
      case True
      from one_covers [of c rid] c rid tr True
      obtain i f t where "nrt = Some i"
        and "window_bounds (current_time env) i = (f, t)"
        and "revoc_reg_delta_key rid f t \<in> dom (map_of deltas1)"
        by auto
      with rest_sub show ?thesis by auto
    next
      case False
      with x have xs: "x \<in> set rs" by simp
      from one_truthy [OF tr] have tr1: "truthy_interval (deciding_interval x nrt1)" .
      from rest_covers [OF xs, of c rid] c rid tr1
      obtain i1 f t where i1: "nrt1 = Some i1"
        and ft: "window_bounds (current_time env) i1 = (f, t)"
        and key: "revoc_reg_delta_key rid f t \<in> dom (map_of deltas')"
        by auto
      from one_bounds i1 ft obtain i where "nrt = Some i" and "window_bounds (current_time env) i = (f, t)"
        by (cases nrt) auto
      with key show ?thesis by auto
    qed
    show ?thesis
    proof (intro conjI ballI allI impI)
      show "dom (map_of deltas) \<subseteq> dom (map_of deltas')" by (rule sub)
      show "map_option (window_bounds (current_time env)) nrt'
             = map_option (window_bounds (current_time env)) nrt" by (rule bounds)
    next
      fix r2 assume "truthy_interval (deciding_interval r2 nrt)"
      with truthy show "truthy_interval (deciding_interval r2 nrt')" by simp
    next
      fix x c rid
      assume "x \<in> set (r # rs)"
        and "map_of creds (ref_cred_id x) = Some c \<and> rev_reg_id c = Some rid \<and> rid \<noteq> []
                 \<and> truthy_interval (deciding_interval x nrt)"
      then show "\<exists>i f t. nrt = Some i \<and> window_bounds (current_time env) i = (f, t)
                      \<and> revoc_reg_delta_key rid f t \<in> dom (map_of deltas')"
        using covers [of x c rid] by simp
    qed
  qed
qed

lemma fetch_delta_entries:
  assumes "fetch_delta env creds r st w = (Inr st', w')"
    and "\<forall>x \<in> set (snd st). fst (snd x) \<in> revocable_ids (map snd creds)"
  shows "\<forall>x \<in> set (snd st'). fst (snd x) \<in> revocable_ids (map snd creds)"
proof -
  obtain nrt deltas where st: "st = (nrt, deltas)"
    by (cases st)
  from assms(1) [unfolded st] assms(2) show ?thesis
    by (cases rule: fetch_delta_cases)
      (auto simp: st revocable_ids_def dest!: map_of_SomeD intro!: bexI)
qed

lemma fetch_deltas_entries:
  assumes "fetch_deltas env creds rs st w = (Inr st', w')"
    and "\<forall>x \<in> set (snd st). fst (snd x) \<in> revocable_ids (map snd creds)"
  shows "\<forall>x \<in> set (snd st'). fst (snd x) \<in> revocable_ids (map snd creds)"
  by (rule loop_invariant [where loop = "fetch_deltas env creds" and step = "fetch_delta env creds"
        and I = "\<lambda>st. \<forall>x \<in> set (snd st). fst (snd x) \<in> revocable_ids (map snd creds)"])
    (simp, simp, erule fetch_delta_entries, assumption, rule assms(1), rule assms(2))

text \<open>
  With no request-level interval and no interval of their own, the referents cause no
  lookup and no error.
\<close>

lemma fetch_deltas_without_intervals:
  assumes "\<forall>r \<in> set rs. ref_non_revoked r = None"
    and "\<forall>r \<in> set rs. map_of creds (ref_cred_id r) \<noteq> None"
  shows "fetch_deltas env creds rs (None, deltas) w = (Inr (None, deltas), w)"
  using assms
proof (induction rs)
  case Nil
  then show ?case by simp
next
  case (Cons r rs)
  then obtain c where c: "map_of creds (ref_cred_id r) = Some c"
    by auto
  from Cons.prems have own: "ref_non_revoked r = None"
    by simp
  have "fetch_delta env creds r (None, deltas) w = (Inr (None, deltas), w)"
    using c own
    by (cases "rev_reg_id c") (simp_all add: fetch_delta_def truthy_interval_def)
  with Cons show ?case
    by (simp add: bnd_Inr)
qed

subsection \<open>Computing the revocation states\<close>

lemma ensure_tails_log:
  assumes "ensure_tails env rid w = (res, w')"
  shows "prefix (journal w) (journal w') \<and> (\<forall>e \<in> set (new_events w w'). e = RetrieveTails rid)"
  using assms
  by (auto simp: ensure_tails_def new_events_def split: if_splits sum.splits)

lemma compute_revocation_state_log:
  assumes "compute_revocation_state env objs leftover entry states w = (res, w')"
  shows "prefix (journal w) (journal w')
         \<and> (\<forall>e \<in> set (new_events w w').
               stage_of e = StateStage
               \<and> (\<forall>rid crid. state_computation e = Some (rid, crid) \<longrightarrow>
                     rid = fst entry \<and> (\<exists>c. leftover = Some c \<and> crid = cred_rev_id c)))"
proof -
  obtain rid cid delta ts where entry: "entry = (rid, cid, delta, ts)"
    by (cases entry)
  show ?thesis
  proof (cases "map_of (revocation_registries objs) rid")
    case None
    with assms entry have "w' = w"
      by (simp add: compute_revocation_state_def Let_def)
    then show ?thesis by simp
  next
    case (Some rev_reg)
    with assms entry
    have "bnd (ensure_tails env rid)
            (\<lambda>_. case leftover of
                    None \<Rightarrow> raise UnboundLocalError
                  | Some credential \<Rightarrow>
                      bnd (call (CreateRevocationState rid (cred_rev_id credential) delta ts)
                             (create_revocation_state env rev_reg (cred_rev_id credential) delta ts))
                        (\<lambda>s. ret (AList.update rid
                                    (AList.update ts s
                                       (case map_of (if map_of states rid = None
                                                     then AList.update rid [] states else states) rid of
                                          None \<Rightarrow> [] | Some m \<Rightarrow> m))
                                    (if map_of states rid = None
                                     then AList.update rid [] states else states)))) w
          = (res, w')"
      by (simp add: compute_revocation_state_def Let_def)
    then show ?thesis
    proof (cases rule: bndE)
      case (failed e)
      from ensure_tails_log [OF failed(1)] show ?thesis by auto
    next
      case (returned u w1)
      note tails = ensure_tails_log [OF returned(1)]
      show ?thesis
      proof (cases leftover)
        case None
        with returned(2) have "w' = w1" by simp
        with tails show ?thesis by auto
      next
        case (Some c)
        with returned(2)
        have "w' = w1\<lparr>journal := journal w1 @ [CreateRevocationState rid (cred_rev_id c) delta ts]\<rparr>"
          by (auto elim!: bndE)
        then have "prefix (journal w1) (journal w')"
          and "new_events w1 w' = [CreateRevocationState rid (cred_rev_id c) delta ts]"
          by (simp_all add: new_events_def)
        with tails Some entry show ?thesis
          by (auto simp: new_events_trans [of w w1 w'] intro: prefix_journal_trans)
      qed
    qed
  qed
qed

lemma compute_revocation_states_log:
  assumes "compute_revocation_states env objs leftover entries states w = (res, w')"
  shows "prefix (journal w) (journal w')
         \<and> (\<forall>e \<in> set (new_events w w').
               stage_of e = StateStage
               \<and> (\<forall>rid crid. state_computation e = Some (rid, crid) \<longrightarrow>
                     rid \<in> fst ` set entries \<and> (\<exists>c. leftover = Some c \<and> crid = cred_rev_id c)))"
proof -
  have "prefix (journal w) (journal w')
        \<and> (\<forall>e \<in> set (new_events w w'). \<exists>entry \<in> set entries.
               stage_of e = StateStage
               \<and> (\<forall>rid crid. state_computation e = Some (rid, crid) \<longrightarrow>
                     rid = fst entry \<and> (\<exists>c. leftover = Some c \<and> crid = cred_rev_id c)))"
    by (rule loop_events [where loop = "compute_revocation_states env objs leftover"
          and step = "compute_revocation_state env objs leftover"])
      (simp, simp, erule compute_revocation_state_log, rule assms)
  then have grows: "prefix (journal w) (journal w')"
    and each: "\<forall>e \<in> set (new_events w w'). \<exists>entry \<in> set entries.
               stage_of e = StateStage
               \<and> (\<forall>rid crid. state_computation e = Some (rid, crid) \<longrightarrow>
                     rid = fst entry \<and> (\<exists>c. leftover = Some c \<and> crid = cred_rev_id c))"
    by simp_all
  have "stage_of e = StateStage
               \<and> (\<forall>rid crid. state_computation e = Some (rid, crid) \<longrightarrow>
                     rid \<in> fst ` set entries \<and> (\<exists>c. leftover = Some c \<and> crid = cred_rev_id c))"
    if "e \<in> set (new_events w w')" for e
  proof -
    from each that obtain entry where "entry \<in> set entries"
      and "stage_of e = StateStage"
      and "\<forall>rid crid. state_computation e = Some (rid, crid) \<longrightarrow>
                     rid = fst entry \<and> (\<exists>c. leftover = Some c \<and> crid = cred_rev_id c)"
      by blast
    then show ?thesis
      by (auto intro: rev_image_eqI)
  qed
  with grows show ?thesis
    by blast
qed

subsection \<open>The whole call\<close>

text \<open>Where a run of \<open>create_presentation\<close> ends: in one of its stages, or after all of them.\<close>

lemma create_presentation_stages:
  assumes run: "create_presentation env r requested comment w = (res, w')"
  obtains
    (no_referents) e where
      "extract_referents (presentation_request r) requested = Inl e" and "res = Inl e" and "w' = w"
  | (no_credentials) refs e where
      "extract_referents (presentation_request r) requested = Inr refs"
      and "get_credentials env (map snd refs) [] w = (Inl e, w')" and "res = Inl e"
  | (no_objects) refs creds w2 e where
      "extract_referents (presentation_request r) requested = Inr refs"
      and "get_credentials env (map snd refs) [] w = (Inr creds, w2)"
      and "resolve_credentials env (map snd creds)
             \<lparr>schemas = [], credential_definitions = [], revocation_registries = []\<rparr> w2
           = (Inl e, w')"
      and "res = Inl e"
  | (no_request) refs creds w2 objs where
      "extract_referents (presentation_request r) requested = Inr refs"
      and "get_credentials env (map snd refs) [] w = (Inr creds, w2)"
      and "resolve_credentials env (map snd creds)
             \<lparr>schemas = [], credential_definitions = [], revocation_registries = []\<rparr> w2
           = (Inr objs, w')"
      and "presentation_request r = None" and "res = Inl AttributeError"
  | (no_deltas) refs creds w2 objs w3 pr e where
      "extract_referents (presentation_request r) requested = Inr refs"
      and "get_credentials env (map snd refs) [] w = (Inr creds, w2)"
      and "resolve_credentials env (map snd creds)
             \<lparr>schemas = [], credential_definitions = [], revocation_registries = []\<rparr> w2
           = (Inr objs, w3)"
      and "presentation_request r = Some pr"
      and "fetch_deltas env creds (map snd refs) (non_revoked pr, []) w3 = (Inl e, w')"
      and "res = Inl e"
  | (no_states) refs creds w2 objs w3 pr nrt deltas w4 e where
      "extract_referents (presentation_request r) requested = Inr refs"
      and "get_credentials env (map snd refs) [] w = (Inr creds, w2)"
      and "resolve_credentials env (map snd creds)
             \<lparr>schemas = [], credential_definitions = [], revocation_registries = []\<rparr> w2
           = (Inr objs, w3)"
      and "presentation_request r = Some pr"
      and "fetch_deltas env creds (map snd refs) (non_revoked pr, []) w3 = (Inr (nrt, deltas), w4)"
      and "compute_revocation_states env objs (leftover_credential creds) (map snd deltas) [] w4
           = (Inl e, w')"
      and "res = Inl e"
  | (assembled) refs creds w2 objs w3 pr nrt deltas w4 states w5 where
      "extract_referents (presentation_request r) requested = Inr refs"
      and "get_credentials env (map snd refs) [] w = (Inr creds, w2)"
      and "resolve_credentials env (map snd creds)
             \<lparr>schemas = [], credential_definitions = [], revocation_registries = []\<rparr> w2
           = (Inr objs, w3)"
      and "presentation_request r = Some pr"
      and "fetch_deltas env creds (map snd refs) (non_revoked pr, []) w3 = (Inr (nrt, deltas), w4)"
      and "compute_revocation_states env objs (leftover_credential creds) (map snd deltas) [] w4
           = (Inr states, w5)"
      and "bnd (call (HolderCreatePresentation (Some (pr\<lparr>non_revoked := nrt\<rparr>)) states)
                 (holder_create_presentation env (Some (pr\<lparr>non_revoked := nrt\<rparr>)) requested
                    (schemas objs) (credential_definitions objs) states))
             (\<lambda>indy_proof.
                bnd (save env
                       (r\<lparr>state := Some STATE_PRESENTATION_SENT, presentation := Some indy_proof,
                          presentation_request := Some (pr\<lparr>non_revoked := nrt\<rparr>)\<rparr>)
                       ''create presentation'')
                  (\<lambda>saved.
                     ret (saved,
                          \<lparr>presentation_thread_id = thread_id r, presentation_comment = comment,
                           presentations_attach = indy_proof\<rparr>))) w5
           = (res, w')"
proof (cases "extract_referents (presentation_request r) requested")
  case (Inl e)
  with run have "res = Inl e" and "w' = w"
    by (simp_all add: create_presentation_def)
  with Inl no_referents show ?thesis by blast
next
  case (Inr refs)
  note refs = this
  with run
  have "bnd (get_credentials env (map snd refs) []) (\<lambda>credentials.
     bnd (resolve_credentials env (map snd credentials)
            \<lparr>schemas = [], credential_definitions = [], revocation_registries = []\<rparr>) (\<lambda>objs.
     (case presentation_request r of
        None \<Rightarrow> raise AttributeError
      | Some pr \<Rightarrow>
          bnd (fetch_deltas env credentials (map snd refs) (non_revoked pr, []))
            (\<lambda>(non_revoked_timespan, revoc_reg_deltas).
          bnd (compute_revocation_states env objs (leftover_credential credentials)
                 (map snd revoc_reg_deltas) []) (\<lambda>revocation_states.
          bnd (call (HolderCreatePresentation
                       (Some (pr\<lparr>non_revoked := non_revoked_timespan\<rparr>)) revocation_states)
                 (holder_create_presentation env
                    (Some (pr\<lparr>non_revoked := non_revoked_timespan\<rparr>)) requested
                    (schemas objs) (credential_definitions objs) revocation_states))
            (\<lambda>indy_proof.
          bnd (save env
                 (r\<lparr>state := Some STATE_PRESENTATION_SENT, presentation := Some indy_proof,
                    presentation_request := Some (pr\<lparr>non_revoked := non_revoked_timespan\<rparr>)\<rparr>)
                 ''create presentation'') (\<lambda>saved.
          ret (saved,
               \<lparr>presentation_thread_id = thread_id r, presentation_comment = comment,
                presentations_attach = indy_proof\<rparr>)))))))) w = (res, w')"
    by (simp add: create_presentation_def)
  then show ?thesis
  proof (cases rule: bndE)
    case (failed e)
    with refs no_credentials show ?thesis by blast
  next
    case credentials: (returned creds w2)
    from credentials(2) show ?thesis
    proof (cases rule: bndE)
      case (failed e)
      with refs credentials(1) no_objects show ?thesis by blast
    next
      case objects: (returned objs w3)
      show ?thesis
      proof (cases "presentation_request r")
        case None
        with objects(2) have "res = Inl AttributeError" and "w' = w3"
          by simp_all
        with refs credentials(1) objects(1) None no_request show ?thesis by blast
      next
        case (Some pr)
        note pr = this
        with objects(2)
        have "bnd (fetch_deltas env creds (map snd refs) (non_revoked pr, []))
            (\<lambda>(non_revoked_timespan, revoc_reg_deltas).
          bnd (compute_revocation_states env objs (leftover_credential creds)
                 (map snd revoc_reg_deltas) []) (\<lambda>revocation_states.
          bnd (call (HolderCreatePresentation
                       (Some (pr\<lparr>non_revoked := non_revoked_timespan\<rparr>)) revocation_states)
                 (holder_create_presentation env
                    (Some (pr\<lparr>non_revoked := non_revoked_timespan\<rparr>)) requested
                    (schemas objs) (credential_definitions objs) revocation_states))
            (\<lambda>indy_proof.
          bnd (save env
                 (r\<lparr>state := Some STATE_PRESENTATION_SENT, presentation := Some indy_proof,
                    presentation_request := Some (pr\<lparr>non_revoked := non_revoked_timespan\<rparr>)\<rparr>)
                 ''create presentation'') (\<lambda>saved.
          ret (saved,
               \<lparr>presentation_thread_id = thread_id r, presentation_comment = comment,
                presentations_attach = indy_proof\<rparr>))))) w3 = (res, w')"
          by simp
        then show ?thesis
        proof (cases rule: bndE)
          case (failed e)
          with refs credentials(1) objects(1) pr no_deltas show ?thesis by blast
        next
          case deltas: (returned st w4)
          obtain nrt ds where st: "st = (nrt, ds)"
            by (cases st)
          from deltas(2) [unfolded st]
          have "bnd (compute_revocation_states env objs (leftover_credential creds) (map snd ds) [])
              (\<lambda>revocation_states.
          bnd (call (HolderCreatePresentation (Some (pr\<lparr>non_revoked := nrt\<rparr>)) revocation_states)
                 (holder_create_presentation env (Some (pr\<lparr>non_revoked := nrt\<rparr>)) requested
                    (schemas objs) (credential_definitions objs) revocation_states))
            (\<lambda>indy_proof.
          bnd (save env
                 (r\<lparr>state := Some STATE_PRESENTATION_SENT, presentation := Some indy_proof,
                    presentation_request := Some (pr\<lparr>non_revoked := nrt\<rparr>)\<rparr>)
                 ''create presentation'') (\<lambda>saved.
          ret (saved,
               \<lparr>presentation_thread_id = thread_id r, presentation_comment = comment,
                presentations_attach = indy_proof\<rparr>)))) w4 = (res, w')"
            by simp
          then show ?thesis
          proof (cases rule: bndE)
            case (failed e)
            with refs credentials(1) objects(1) pr deltas(1) [unfolded st] no_states
            show ?thesis by blast
          next
            case states: (returned states w5)
            from refs credentials(1) objects(1) pr deltas(1) [unfolded st] states
            show ?thesis
              by (rule assembled)
          qed
        qed
      qed
    qed
  qed
qed

lemma assemble_log:
  assumes "bnd (call (HolderCreatePresentation request states) answer)
             (\<lambda>indy_proof.
                bnd (save env
                       (r\<lparr>state := Some STATE_PRESENTATION_SENT, presentation := Some indy_proof,
                          presentation_request := request\<rparr>)
                       ''create presentation'')
                  (\<lambda>saved.
                     ret (saved,
                          \<lparr>presentation_thread_id = thread_id r, presentation_comment = comment,
                           presentations_attach = indy_proof\<rparr>))) w
           = (res, w')"
  shows "prefix (journal w) (journal w')
         \<and> (\<forall>e \<in> set (new_events w w'). stage_of e = FinalStage)
         \<and> (\<forall>r' msg. res = Inr (r', msg) \<longrightarrow> state r' = Some STATE_PRESENTATION_SENT)"
  using assms
  by (auto elim!: bndE save_cases simp: new_events_def)

subsection \<open>Stages that return\<close>

text \<open>A loop returns when every step does.\<close>

lemma loop_returns:
  fixes loop :: "'a list \<Rightarrow> 's \<Rightarrow> (world, 's) io"
  assumes nil: "\<And>s. loop [] s = ret s"
    and cons: "\<And>x xs s. loop (x # xs) s = bnd (step x s) (loop xs)"
    and step: "\<And>x s w. x \<in> set xs \<Longrightarrow> \<exists>s' w'. step x s w = (Inr s', w')"
  shows "\<exists>s' w'. loop xs s w = (Inr s', w')"
  using step
proof (induction xs arbitrary: s w)
  case Nil
  show ?case by (simp add: nil)
next
  case (Cons x xs)
  from Cons.prems [of x s w] obtain s1 w1 where first: "step x s w = (Inr s1, w1)"
    by auto
  from Cons.IH [of s1 w1] Cons.prems obtain s' w' where "loop xs s1 w1 = (Inr s', w')"
    by auto
  with first show ?case
    by (simp add: cons bnd_Inr)
qed

lemma fetch_missing_returns:
  assumes "get = Inr v"
  shows "\<exists>d' w'. fetch_missing ev get k d w = (Inr d', w')"
  using assms by (simp add: fetch_missing_def bnd_def)

lemma get_credentials_returns:
  assumes "\<forall>x \<in> set rs. \<exists>c. holder_get_credential env (ref_cred_id x) = Inr c"
  shows "\<exists>creds' w'. get_credentials env rs creds w = (Inr creds', w')"
proof (rule loop_returns [where loop = "get_credentials env" and step = "get_credential env"])
  fix x creds w
  assume "x \<in> set rs"
  with assms obtain c where "holder_get_credential env (ref_cred_id x) = Inr c"
    by auto
  then show "\<exists>s' w'. get_credential env x creds w = (Inr s', w')"
    unfolding get_credential_def by (rule fetch_missing_returns)
qed simp_all

lemma resolve_credential_returns:
  assumes "\<exists>s. ledger_get_schema env (schema_id c) = Inr s"
    and "\<exists>d. ledger_get_credential_definition env (cred_def_id c) = Inr d"
    and "\<forall>rid. rev_reg_id c = Some rid \<longrightarrow> (\<exists>d. ledger_get_revoc_reg_def env rid = Inr d)"
  shows "\<exists>objs' w'. resolve_credential env c objs w = (Inr objs', w')"
proof -
  from assms(1) obtain s where s: "ledger_get_schema env (schema_id c) = Inr s"
    by auto
  from assms(2) obtain d where d: "ledger_get_credential_definition env (cred_def_id c) = Inr d"
    by auto
  from fetch_missing_returns [OF s] obtain schemas' w1 where
    first: "fetch_missing (GetSchema (schema_id c)) (ledger_get_schema env (schema_id c))
              (schema_id c) (schemas objs) w = (Inr schemas', w1)"
    by blast
  from fetch_missing_returns [OF d] obtain cred_defs' w2 where
    second: "fetch_missing (GetCredentialDefinition (cred_def_id c))
               (ledger_get_credential_definition env (cred_def_id c))
               (cred_def_id c) (credential_definitions objs) w1 = (Inr cred_defs', w2)"
    by blast
  have "\<exists>registries' w3.
          (case rev_reg_id c of
             None \<Rightarrow> ret (revocation_registries objs)
           | Some rid \<Rightarrow>
               if rid = [] then ret (revocation_registries objs)
               else fetch_missing (GetRevocRegDef rid) (ledger_get_revoc_reg_def env rid)
                      rid (revocation_registries objs)) w2 = (Inr registries', w3)"
  proof (cases "rev_reg_id c")
    case None
    then show ?thesis by simp
  next
    case (Some rid)
    with assms(3) obtain rd where "ledger_get_revoc_reg_def env rid = Inr rd"
      by auto
    from fetch_missing_returns [OF this] Some show ?thesis
      by simp
  qed
  then obtain registries' w3 where
    third: "(case rev_reg_id c of
             None \<Rightarrow> ret (revocation_registries objs)
           | Some rid \<Rightarrow>
               if rid = [] then ret (revocation_registries objs)
               else fetch_missing (GetRevocRegDef rid) (ledger_get_revoc_reg_def env rid)
                      rid (revocation_registries objs)) w2 = (Inr registries', w3)"
    by blast
  from first second third show ?thesis
    by (simp add: resolve_credential_def bnd_Inr)
qed

lemma resolve_credentials_returns:
  assumes "\<forall>c \<in> set cs. (\<exists>s. ledger_get_schema env (schema_id c) = Inr s)
             \<and> (\<exists>d. ledger_get_credential_definition env (cred_def_id c) = Inr d)
             \<and> (\<forall>rid. rev_reg_id c = Some rid \<longrightarrow> (\<exists>d. ledger_get_revoc_reg_def env rid = Inr d))"
  shows "\<exists>objs' w'. resolve_credentials env cs objs w = (Inr objs', w')"
proof (rule loop_returns [where loop = "resolve_credentials env" and step = "resolve_credential env"])
  fix c objs w
  assume "c \<in> set cs"
  with assms show "\<exists>s' w'. resolve_credential env c objs w = (Inr s', w')"
    by (intro resolve_credential_returns) auto
qed simp_all

text \<open>What the ledger loop has fetched is what its dictionaries hold.\<close>

lemma resolve_credentials_fetched:
  assumes "resolve_credentials env cs objs w = (Inr objs', w')"
  shows "dom (map_of (schemas objs'))
         = dom (map_of (schemas objs)) \<union> set (schema_fetches (new_events w w'))"
    and "dom (map_of (credential_definitions objs'))
         = dom (map_of (credential_definitions objs)) \<union> set (cred_def_fetches (new_events w w'))"
  using loop_distinct [where loop = "resolve_credentials env" and step = "resolve_credential env"
      and proj = schema_fetch and keys = "\<lambda>objs. dom (map_of (schemas objs))",
      OF _ _ resolve_credential_schemas assms]
    loop_distinct [where loop = "resolve_credentials env" and step = "resolve_credential env"
      and proj = cred_def_fetch and keys = "\<lambda>objs. dom (map_of (credential_definitions objs))",
      OF _ _ resolve_credential_cred_defs assms]
  by (simp_all add: schema_fetches_def cred_def_fetches_def)

lemma resolve_credential_covers:
  assumes "resolve_credential env c objs w = (Inr objs', w')"
  shows "insert (schema_id c) (dom (map_of (schemas objs))) \<subseteq> dom (map_of (schemas objs'))
         \<and> insert (cred_def_id c) (dom (map_of (credential_definitions objs)))
             \<subseteq> dom (map_of (credential_definitions objs'))"
  using assms
  apply (simp add: resolve_credential_def)
  apply (elim bndE)
  apply (auto elim!: fetch_missing_cases simp: map_add_def split: option.splits if_splits)
  done

lemma resolve_credentials_covers:
  "resolve_credentials env cs objs w = (Inr objs', w') \<Longrightarrow>
   dom (map_of (schemas objs)) \<union> schema_id ` set cs \<subseteq> dom (map_of (schemas objs'))
   \<and> dom (map_of (credential_definitions objs)) \<union> cred_def_id ` set cs
       \<subseteq> dom (map_of (credential_definitions objs'))"
proof (induction cs arbitrary: objs w)
  case Nil
  then show ?case by simp
next
  case (Cons c cs)
  from Cons.prems
  have "bnd (resolve_credential env c objs) (resolve_credentials env cs) w = (Inr objs', w')"
    by simp
  then show ?case
  proof (cases rule: bndE)
    case (failed e)
    then show ?thesis by simp
  next
    case (returned objs1 w1)
    from resolve_credential_covers [OF returned(1)]
    have one: "schema_id c \<in> dom (map_of (schemas objs1))"
      "dom (map_of (schemas objs)) \<subseteq> dom (map_of (schemas objs1))"
      "cred_def_id c \<in> dom (map_of (credential_definitions objs1))"
      "dom (map_of (credential_definitions objs)) \<subseteq> dom (map_of (credential_definitions objs1))"
      by blast+
    from Cons.IH [OF returned(2)]
    have rest: "dom (map_of (schemas objs1)) \<subseteq> dom (map_of (schemas objs'))"
      "schema_id ` set cs \<subseteq> dom (map_of (schemas objs'))"
      "dom (map_of (credential_definitions objs1)) \<subseteq> dom (map_of (credential_definitions objs'))"
      "cred_def_id ` set cs \<subseteq> dom (map_of (credential_definitions objs'))"
      by blast+
    have "dom (map_of (schemas objs)) \<union> schema_id ` set (c # cs) \<subseteq> dom (map_of (schemas objs'))"
      using one(1,2) rest(1,2) by (simp only: set_simps image_insert) blast
    moreover
    have "dom (map_of (credential_definitions objs)) \<union> cred_def_id ` set (c # cs)
          \<subseteq> dom (map_of (credential_definitions objs'))"
      using one(3,4) rest(3,4) by (simp only: set_simps image_insert) blast
    ultimately show ?thesis by (rule conjI)
  qed
qed

lemma count_list_distinct:
  "distinct xs \<Longrightarrow> x \<in> set xs \<Longrightarrow> count_list xs x = 1"
  by (induction xs) (auto simp: count_list_0_iff)

text \<open>
  The credential the holder returned for a referent is the one the dictionary holds
  under the referent's credential id.
\<close>

lemma get_credentials_lookup:
  assumes run: "get_credentials env rs [] w = (Inr creds, w')"
    and r: "x \<in> set rs"
    and c: "holder_get_credential env (ref_cred_id x) = Inr c"
  shows "map_of creds (ref_cred_id x) = Some c"
proof -
  from get_credentials_keys [OF run] r have "ref_cred_id x \<in> dom (map_of creds)"
    by auto
  then obtain c' where c': "map_of creds (ref_cred_id x) = Some c'"
    by auto
  then have "(ref_cred_id x, c') \<in> set creds"
    by (rule map_of_SomeD)
  with get_credentials_entries [OF run] have "holder_get_credential env (ref_cred_id x) = Inr c'"
    by auto
  with c c' show ?thesis by simp
qed

text \<open>Every entry of the dictionary came from the holder, for a requested referent.\<close>

lemma get_credentials_origin:
  assumes run: "get_credentials env rs [] w = (Inr creds, w')"
    and c: "c \<in> set (map snd creds)"
  shows "\<exists>x \<in> set rs. holder_get_credential env (ref_cred_id x) = Inr c"
  using get_credentials_entries [OF run] c by auto

subsection \<open>The log of a whole call\<close>

lemma schema_fetch_stage: "schema_fetch e = Some i \<Longrightarrow> stage_of e = LedgerStage"
  by (cases e) simp_all

lemma cred_def_fetch_stage: "cred_def_fetch e = Some i \<Longrightarrow> stage_of e = LedgerStage"
  by (cases e) simp_all

lemma rev_reg_def_fetch_stage: "rev_reg_def_fetch e = Some i \<Longrightarrow> stage_of e = LedgerStage"
  by (cases e) simp_all

lemma delta_fetch_stage: "delta_fetch e = Some k \<Longrightarrow> stage_of e = DeltaStage"
  by (cases e) simp_all

lemma state_computation_stage: "state_computation e = Some k \<Longrightarrow> stage_of e = StateStage"
  by (cases e) simp_all

text \<open>The events of one stage hold no call of another stage.\<close>

lemma no_ledger_fetches:
  assumes "\<forall>e \<in> set evs. stage_of e = k" and "k \<noteq> LedgerStage"
  shows "schema_fetches evs = []" and "cred_def_fetches evs = []"
    and "rev_reg_def_fetches evs = []"
proof -
  have "schema_fetch e = None" "cred_def_fetch e = None" "rev_reg_def_fetch e = None"
    if "e \<in> set evs" for e
    using that assms schema_fetch_stage [of e] cred_def_fetch_stage [of e]
      rev_reg_def_fetch_stage [of e]
    by (cases "schema_fetch e"; cases "cred_def_fetch e"; cases "rev_reg_def_fetch e"; simp)+
  then show "schema_fetches evs = []" and "cred_def_fetches evs = []"
    and "rev_reg_def_fetches evs = []"
    by (simp_all add: schema_fetches_def cred_def_fetches_def rev_reg_def_fetches_def
        map_filter_none)
qed

lemma no_delta_fetches:
  assumes "\<forall>e \<in> set evs. stage_of e = k" and "k \<noteq> DeltaStage"
  shows "delta_fetches evs = []"
proof -
  have "delta_fetch e = None" if "e \<in> set evs" for e
    using that assms delta_fetch_stage [of e]
    by (cases "delta_fetch e") auto
  then show ?thesis
    by (simp add: delta_fetches_def map_filter_none)
qed

lemma no_state_computations:
  assumes "\<forall>e \<in> set evs. stage_of e = k" and "k \<noteq> StateStage"
  shows "state_computations evs = []"
proof -
  have "state_computation e = None" if "e \<in> set evs" for e
    using that assms state_computation_stage [of e]
    by (cases "state_computation e") auto
  then show ?thesis
    by (simp add: state_computations_def map_filter_none)
qed

lemma nothing_fetched [simp]:
  "schema_fetches [] = []" "cred_def_fetches [] = []" "rev_reg_def_fetches [] = []"
  "delta_fetches [] = []" "state_computations [] = []"
  by (simp_all add: schema_fetches_def cred_def_fetches_def rev_reg_def_fetches_def
      delta_fetches_def state_computations_def List.map_filter_simps)

lemma fetches_append [simp]:
  "schema_fetches (xs @ ys) = schema_fetches xs @ schema_fetches ys"
  "cred_def_fetches (xs @ ys) = cred_def_fetches xs @ cred_def_fetches ys"
  "rev_reg_def_fetches (xs @ ys) = rev_reg_def_fetches xs @ rev_reg_def_fetches ys"
  "delta_fetches (xs @ ys) = delta_fetches xs @ delta_fetches ys"
  "state_computations (xs @ ys) = state_computations xs @ state_computations ys"
  by (simp_all add: schema_fetches_def cred_def_fetches_def rev_reg_def_fetches_def
      delta_fetches_def state_computations_def)

text \<open>
  A call that ends before the ledger is consulted: the referents could not be read, or
  the holder failed on a credential.
\<close>

lemma create_presentation_early:
  assumes run: "create_presentation env r requested comment w = (res, w')"
    and early: "(\<exists>e. extract_referents (presentation_request r) requested = Inl e)
                \<or> (\<exists>refs e w2. extract_referents (presentation_request r) requested = Inr refs
                      \<and> get_credentials env (map snd refs) [] w = (Inl e, w2))"
  shows "prefix (journal w) (journal w')
         \<and> (\<forall>e \<in> set (new_events w w'). stage_of e = CredentialStage)
         \<and> (\<exists>e. res = Inl e)"
  using run
proof (cases rule: create_presentation_stages)
  case (no_referents e)
  then show ?thesis by simp
next
  case (no_credentials refs e)
  with get_credentials_log [OF no_credentials(2)] show ?thesis by simp
qed (use early in auto)

text \<open>
  A call that got its credentials from the holder.  Its log is that of the holder
  lookups, followed by the events of the four later stages; a stage the call did not
  reach has no events.
\<close>

lemma create_presentation_log:
  assumes run: "create_presentation env r requested comment w = (res, w')"
    and refs: "extract_referents (presentation_request r) requested = Inr refs"
    and creds: "get_credentials env (map snd refs) [] w = (Inr creds, w2)"
  obtains e3 e4 e5 e6 where
    "prefix (journal w) (journal w')"
    and "new_events w w' = new_events w w2 @ e3 @ e4 @ e5 @ e6"
    and "\<forall>e \<in> set (new_events w w2). stage_of e = CredentialStage"
    and "\<forall>e \<in> set e3. stage_of e = LedgerStage
           \<and> (\<forall>rid. rev_reg_def_fetch e = Some rid \<longrightarrow> rid \<in> revocable_ids (map snd creds))"
    and "distinct (schema_fetches e3)" and "distinct (cred_def_fetches e3)"
    and "distinct (rev_reg_def_fetches e3)"
    and "\<forall>e \<in> set e4. stage_of e = DeltaStage
           \<and> (\<forall>rid f t. delta_fetch e = Some (rid, f, t) \<longrightarrow>
                 rid \<in> revocable_ids (map snd creds))"
    and "distinct (delta_fetches e4)"
    and "\<forall>e \<in> set e5. stage_of e = StateStage
           \<and> (\<forall>rid crid. state_computation e = Some (rid, crid) \<longrightarrow>
                 rid \<in> revocable_ids (map snd creds)
                 \<and> (\<exists>c. leftover_credential creds = Some c \<and> crid = cred_rev_id c))"
    and "\<forall>e \<in> set e6. stage_of e = FinalStage"
    and "\<forall>x. res = Inr x \<longrightarrow>
           state (fst x) = Some STATE_PRESENTATION_SENT
           \<and> (\<forall>c \<in> set (map snd creds).
                  schema_id c \<in> set (schema_fetches e3)
                  \<and> cred_def_id c \<in> set (cred_def_fetches e3))
           \<and> (\<exists>pr. presentation_request r = Some pr
                \<and> (\<forall>q \<in> set refs. \<forall>c rid.
                      map_of creds (ref_cred_id (snd q)) = Some c \<and> rev_reg_id c = Some rid
                        \<and> rid \<noteq> []
                        \<and> truthy_interval (deciding_interval (snd q) (non_revoked pr))
                      \<longrightarrow> (\<exists>i. non_revoked pr = Some i
                             \<and> (rid, window_bounds (current_time env) i)
                                 \<in> set (delta_fetches e4))))"
proof -
  note p2 = get_credentials_log [OF creds]
  let ?objs0 = "\<lparr>schemas = [], credential_definitions = [], revocation_registries = []\<rparr>"
  have ledger:
    "prefix (journal w2) (journal w3)
     \<and> (\<forall>e \<in> set (new_events w2 w3). stage_of e = LedgerStage
           \<and> (\<forall>rid. rev_reg_def_fetch e = Some rid \<longrightarrow> rid \<in> revocable_ids (map snd creds)))
     \<and> distinct (schema_fetches (new_events w2 w3))
     \<and> distinct (cred_def_fetches (new_events w2 w3))
     \<and> distinct (rev_reg_def_fetches (new_events w2 w3))"
    if "resolve_credentials env (map snd creds) ?objs0 w2 = (res3, w3)" for res3 w3
    using resolve_credentials_log [OF that] resolve_credentials_schemas [OF that]
      resolve_credentials_cred_defs [OF that] resolve_credentials_registries [OF that]
    by blast
  have deltas:
    "prefix (journal w3) (journal w4)
     \<and> (\<forall>e \<in> set (new_events w3 w4). stage_of e = DeltaStage
           \<and> (\<forall>rid f t. delta_fetch e = Some (rid, f, t) \<longrightarrow>
                 rid \<in> revocable_ids (map snd creds)))
     \<and> distinct (delta_fetches (new_events w3 w4))"
    if "fetch_deltas env creds (map snd refs) st w3 = (res4, w4)" for st res4 w3 w4
    using fetch_deltas_log [OF that] fetch_deltas_distinct [OF that]
    by blast
  have states:
    "prefix (journal w4) (journal w5)
     \<and> (\<forall>e \<in> set (new_events w4 w5). stage_of e = StateStage
           \<and> (\<forall>rid crid. state_computation e = Some (rid, crid) \<longrightarrow>
                 rid \<in> revocable_ids (map snd creds)
                 \<and> (\<exists>c. leftover_credential creds = Some c \<and> crid = cred_rev_id c)))"
    if fetched: "fetch_deltas env creds (map snd refs) (nrt0, []) w3 = (Inr (nrt, ds), w4)"
      and computed: "compute_revocation_states env objs (leftover_credential creds)
                       (map snd ds) [] w4 = (res5, w5)"
    for nrt0 nrt ds objs res5 w3 w4 w5
  proof -
    from fetch_deltas_entries [OF fetched]
    have "fst ` set (map snd ds) \<subseteq> revocable_ids (map snd creds)"
      by auto
    with compute_revocation_states_log [OF computed] show ?thesis
      by blast
  qed
  from run show ?thesis
  proof (cases rule: create_presentation_stages)
    case (no_referents e)
    with refs show ?thesis by simp
  next
    case (no_credentials refs' e)
    with refs creds show ?thesis by simp
  next
    case (no_objects refs' creds' w2' e)
    with refs creds have same: "refs' = refs" "creds' = creds" "w2' = w2"
      by simp_all
    note p3 = ledger [OF no_objects(3) [unfolded same]]
    show ?thesis
    proof (rule that [of "new_events w2 w'" "[]" "[]" "[]"])
      show "prefix (journal w) (journal w')"
        using p2 p3 by (blast intro: prefix_journal_trans)
      show "new_events w w' = new_events w w2 @ new_events w2 w' @ [] @ [] @ []"
        using p2 p3 by (simp add: new_events_trans)
    qed (use p2 p3 no_objects(4) in simp_all)
  next
    case (no_request refs' creds' w2' objs)
    with refs creds have same: "refs' = refs" "creds' = creds" "w2' = w2"
      by simp_all
    note p3 = ledger [OF no_request(3) [unfolded same]]
    show ?thesis
    proof (rule that [of "new_events w2 w'" "[]" "[]" "[]"])
      show "prefix (journal w) (journal w')"
        using p2 p3 by (blast intro: prefix_journal_trans)
      show "new_events w w' = new_events w w2 @ new_events w2 w' @ [] @ [] @ []"
        using p2 p3 by (simp add: new_events_trans)
    qed (use p2 p3 no_request(5) in simp_all)
  next
    case (no_deltas refs' creds' w2' objs w3 pr e)
    with refs creds have same: "refs' = refs" "creds' = creds" "w2' = w2"
      by simp_all
    note p3 = ledger [OF no_deltas(3) [unfolded same]]
    note p4 = deltas [OF no_deltas(5) [unfolded same]]
    have p23: "prefix (journal w) (journal w3)"
      using p2 p3 by (blast intro: prefix_journal_trans)
    show ?thesis
    proof (rule that [of "new_events w2 w3" "new_events w3 w'" "[]" "[]"])
      show "prefix (journal w) (journal w')"
        using p23 p4 by (blast intro: prefix_journal_trans)
      show "new_events w w' = new_events w w2 @ new_events w2 w3 @ new_events w3 w' @ [] @ []"
        using p2 p3 p4 p23 by (simp add: new_events_trans [of w w3 w'] new_events_trans [of w w2 w3])
    qed (use p2 p3 p4 no_deltas(6) in simp_all)
  next
    case (no_states refs' creds' w2' objs w3 pr nrt ds w4 e)
    with refs creds have same: "refs' = refs" "creds' = creds" "w2' = w2"
      by simp_all
    note p3 = ledger [OF no_states(3) [unfolded same]]
    note p4 = deltas [OF no_states(5) [unfolded same]]
    note p5 = states [OF no_states(5) [unfolded same] no_states(6) [unfolded same]]
    have p23: "prefix (journal w) (journal w3)"
      using p2 p3 by (blast intro: prefix_journal_trans)
    have p24: "prefix (journal w) (journal w4)"
      using p23 p4 by (blast intro: prefix_journal_trans)
    show ?thesis
    proof (rule that [of "new_events w2 w3" "new_events w3 w4" "new_events w4 w'" "[]"])
      show "prefix (journal w) (journal w')"
        using p24 p5 by (blast intro: prefix_journal_trans)
      show "new_events w w'
            = new_events w w2 @ new_events w2 w3 @ new_events w3 w4 @ new_events w4 w' @ []"
        using p2 p3 p4 p5 p23 p24
        by (simp add: new_events_trans [of w w4 w'] new_events_trans [of w w3 w4]
            new_events_trans [of w w2 w3])
    qed (use p2 p3 p4 p5 no_states(7) in simp_all)
  next
    case (assembled refs' creds' w2' objs w3 pr nrt ds w4 sts w5)
    with refs creds have same: "refs' = refs" "creds' = creds" "w2' = w2"
      by simp_all
    note fetched = assembled(5) [unfolded same]
    note p3 = ledger [OF assembled(3) [unfolded same]]
    note p4 = deltas [OF fetched]
    note p5 = states [OF fetched assembled(6) [unfolded same]]
    note p6 = assemble_log [OF assembled(7)]
    have p23: "prefix (journal w) (journal w3)"
      using p2 p3 by (blast intro: prefix_journal_trans)
    have p24: "prefix (journal w) (journal w4)"
      using p23 p4 by (blast intro: prefix_journal_trans)
    have p25: "prefix (journal w) (journal w5)"
      using p24 p5 by (blast intro: prefix_journal_trans)
    have resolved:
      "schema_id c \<in> set (schema_fetches (new_events w2 w3))
       \<and> cred_def_id c \<in> set (cred_def_fetches (new_events w2 w3))"
      if "c \<in> set (map snd creds)" for c
    proof -
      from that have "schema_id c \<in> schema_id ` set (map snd creds)"
        and "cred_def_id c \<in> cred_def_id ` set (map snd creds)"
        by (simp_all only: imageI)
      with resolve_credentials_covers [OF assembled(3) [unfolded same]]
      have "schema_id c \<in> dom (map_of (schemas objs))"
        and "cred_def_id c \<in> dom (map_of (credential_definitions objs))"
        by blast+
      with resolve_credentials_fetched [OF assembled(3) [unfolded same]] show ?thesis
        by simp
    qed
    have covered:
      "\<exists>i. non_revoked pr = Some i
           \<and> (rid, window_bounds (current_time env) i) \<in> set (delta_fetches (new_events w3 w4))"
      if q: "q \<in> set refs" and c: "map_of creds (ref_cred_id (snd q)) = Some c"
        and rid: "rev_reg_id c = Some rid" "rid \<noteq> []"
        and window: "truthy_interval (deciding_interval (snd q) (non_revoked pr))"
      for q c rid
    proof -
      from q have "snd q \<in> set (map snd refs)"
        by simp
      with fetch_deltas_covers [OF fetched] c rid window
      obtain i f t where i: "non_revoked pr = Some i"
        and ft: "window_bounds (current_time env) i = (f, t)"
        and key: "revoc_reg_delta_key rid f t \<in> dom (map_of ds)"
        by blast
      from fetch_deltas_keys [OF fetched] key
      have "revoc_reg_delta_key rid f t
            \<in> (\<lambda>(rid, f, t). revoc_reg_delta_key rid f t) ` set (delta_fetches (new_events w3 w4))"
        by (simp add: delta_keys_of_fetches)
      then obtain rid' f' t' where "(rid', f', t') \<in> set (delta_fetches (new_events w3 w4))"
        and "revoc_reg_delta_key rid f t = revoc_reg_delta_key rid' f' t'"
        by auto
      with revoc_reg_delta_key_inj [of rid f t rid' f' t']
      have "(rid, f, t) \<in> set (delta_fetches (new_events w3 w4))"
        by simp
      with i ft show ?thesis by simp
    qed
    show ?thesis
    proof (rule that [of "new_events w2 w3" "new_events w3 w4" "new_events w4 w5"
          "new_events w5 w'"])
      show "prefix (journal w) (journal w')"
        using p25 p6 by (blast intro: prefix_journal_trans)
      show "new_events w w'
            = new_events w w2 @ new_events w2 w3 @ new_events w3 w4 @ new_events w4 w5
              @ new_events w5 w'"
        using p2 p3 p4 p5 p6 p23 p24 p25
        by (simp add: new_events_trans [of w w5 w'] new_events_trans [of w w4 w5]
            new_events_trans [of w w3 w4] new_events_trans [of w w2 w3])
      show "\<forall>x. res = Inr x \<longrightarrow>
           state (fst x) = Some STATE_PRESENTATION_SENT
           \<and> (\<forall>c \<in> set (map snd creds).
                  schema_id c \<in> set (schema_fetches (new_events w2 w3))
                  \<and> cred_def_id c \<in> set (cred_def_fetches (new_events w2 w3)))
           \<and> (\<exists>pr. presentation_request r = Some pr
                \<and> (\<forall>q \<in> set refs. \<forall>c rid.
                      map_of creds (ref_cred_id (snd q)) = Some c \<and> rev_reg_id c = Some rid
                        \<and> rid \<noteq> []
                        \<and> truthy_interval (deciding_interval (snd q) (non_revoked pr))
                      \<longrightarrow> (\<exists>i. non_revoked pr = Some i
                             \<and> (rid, window_bounds (current_time env) i)
                                 \<in> set (delta_fetches (new_events w3 w4)))))"
        using p6 assembled(4) covered resolved by (cases res) auto
    qed (use p2 p3 p4 p5 p6 in simp_all)
  qed
qed

text \<open>
  The ledger calls of a whole call, read off its log: what each loop guarantees for its
  own events holds for the log of the call.
\<close>

lemma create_presentation_summary:
  assumes run: "create_presentation env r requested comment w = (res, w')"
  obtains
    (early) "schema_fetches (new_events w w') = []" and "cred_def_fetches (new_events w w') = []"
      and "rev_reg_def_fetches (new_events w w') = []" and "delta_fetches (new_events w w') = []"
      and "state_computations (new_events w w') = []" and "\<exists>e. res = Inl e"
  | (late) refs creds w2 where
      "extract_referents (presentation_request r) requested = Inr refs"
      and "get_credentials env (map snd refs) [] w = (Inr creds, w2)"
      and "distinct (schema_fetches (new_events w w'))"
      and "distinct (cred_def_fetches (new_events w w'))"
      and "distinct (rev_reg_def_fetches (new_events w w'))"
      and "distinct (delta_fetches (new_events w w'))"
      and "set (rev_reg_def_fetches (new_events w w')) \<subseteq> revocable_ids (map snd creds)"
      and "fst ` set (delta_fetches (new_events w w')) \<subseteq> revocable_ids (map snd creds)"
      and "\<forall>k \<in> set (state_computations (new_events w w')).
             fst k \<in> revocable_ids (map snd creds)
             \<and> (\<exists>c. leftover_credential creds = Some c \<and> snd k = cred_rev_id c)"
      and "\<forall>x. res = Inr x \<longrightarrow>
             (\<forall>c \<in> set (map snd creds).
                 schema_id c \<in> set (schema_fetches (new_events w w'))
                 \<and> cred_def_id c \<in> set (cred_def_fetches (new_events w w')))
             \<and> (\<exists>pr. presentation_request r = Some pr
                  \<and> (\<forall>q \<in> set refs. \<forall>c rid.
                        map_of creds (ref_cred_id (snd q)) = Some c \<and> rev_reg_id c = Some rid
                          \<and> rid \<noteq> []
                          \<and> truthy_interval (deciding_interval (snd q) (non_revoked pr))
                        \<longrightarrow> (\<exists>i. non_revoked pr = Some i
                               \<and> (rid, window_bounds (current_time env) i)
                                   \<in> set (delta_fetches (new_events w w')))))"
proof (cases "extract_referents (presentation_request r) requested")
  case (Inl e)
  with create_presentation_early [OF run]
  have stage: "\<forall>e \<in> set (new_events w w'). stage_of e = CredentialStage" and "\<exists>e. res = Inl e"
    by blast+
  with no_ledger_fetches [OF stage] no_delta_fetches [OF stage] no_state_computations [OF stage]
  show ?thesis
    by (intro early) simp_all
next
  case (Inr refs)
  note refs = this
  obtain res2 w2 where got: "get_credentials env (map snd refs) [] w = (res2, w2)"
    by (cases "get_credentials env (map snd refs) [] w")
  show ?thesis
  proof (cases res2)
    case (Inl e)
    with create_presentation_early [OF run] refs got
    have stage: "\<forall>e \<in> set (new_events w w'). stage_of e = CredentialStage"
      and "\<exists>e. res = Inl e"
      by blast+
    with no_ledger_fetches [OF stage] no_delta_fetches [OF stage] no_state_computations [OF stage]
    show ?thesis
      by (intro early) simp_all
  next
    case (Inr creds)
    with got have creds: "get_credentials env (map snd refs) [] w = (Inr creds, w2)"
      by simp
    from run refs creds show ?thesis
    proof (cases rule: create_presentation_log)
      case (1 e3 e4 e5 e6)
      note split = 1(2)
      have s2: "\<forall>e \<in> set (new_events w w2). stage_of e = CredentialStage" by (rule 1(3))
      have s3: "\<forall>e \<in> set e3. stage_of e = LedgerStage" using 1(4) by blast
      have s4: "\<forall>e \<in> set e4. stage_of e = DeltaStage" using 1(8) by blast
      have s5: "\<forall>e \<in> set e5. stage_of e = StateStage" using 1(10) by blast
      have s6: "\<forall>e \<in> set e6. stage_of e = FinalStage" by (rule 1(11))
      have schemas: "schema_fetches (new_events w w') = schema_fetches e3"
        by (simp add: split no_ledger_fetches(1) [OF s2] no_ledger_fetches(1) [OF s4]
            no_ledger_fetches(1) [OF s5] no_ledger_fetches(1) [OF s6])
      have cred_defs: "cred_def_fetches (new_events w w') = cred_def_fetches e3"
        by (simp add: split no_ledger_fetches(2) [OF s2] no_ledger_fetches(2) [OF s4]
            no_ledger_fetches(2) [OF s5] no_ledger_fetches(2) [OF s6])
      have registries: "rev_reg_def_fetches (new_events w w') = rev_reg_def_fetches e3"
        by (simp add: split no_ledger_fetches(3) [OF s2] no_ledger_fetches(3) [OF s4]
            no_ledger_fetches(3) [OF s5] no_ledger_fetches(3) [OF s6])
      have deltas: "delta_fetches (new_events w w') = delta_fetches e4"
        by (simp add: split no_delta_fetches [OF s2] no_delta_fetches [OF s3]
            no_delta_fetches [OF s5] no_delta_fetches [OF s6])
      have states: "state_computations (new_events w w') = state_computations e5"
        by (simp add: split no_state_computations [OF s2] no_state_computations [OF s3]
            no_state_computations [OF s4] no_state_computations [OF s6])
      show ?thesis
      proof (rule late [OF refs creds])
        show "distinct (schema_fetches (new_events w w'))"
          using 1(5) by (simp add: schemas)
        show "distinct (cred_def_fetches (new_events w w'))"
          using 1(6) by (simp add: cred_defs)
        show "distinct (rev_reg_def_fetches (new_events w w'))"
          using 1(7) by (simp add: registries)
        show "distinct (delta_fetches (new_events w w'))"
          using 1(9) by (simp add: deltas)
        show "set (rev_reg_def_fetches (new_events w w')) \<subseteq> revocable_ids (map snd creds)"
          using 1(4) unfolding registries unfolding rev_reg_def_fetches_def set_map_filter by blast
        show "fst ` set (delta_fetches (new_events w w')) \<subseteq> revocable_ids (map snd creds)"
          using 1(8) unfolding deltas unfolding delta_fetches_def set_map_filter by auto
        show "\<forall>k \<in> set (state_computations (new_events w w')).
                fst k \<in> revocable_ids (map snd creds)
                \<and> (\<exists>c. leftover_credential creds = Some c \<and> snd k = cred_rev_id c)"
          using 1(10) unfolding states unfolding state_computations_def set_map_filter by auto
        show "\<forall>x. res = Inr x \<longrightarrow>
             (\<forall>c \<in> set (map snd creds).
                 schema_id c \<in> set (schema_fetches (new_events w w'))
                 \<and> cred_def_id c \<in> set (cred_def_fetches (new_events w w')))
             \<and> (\<exists>pr. presentation_request r = Some pr
                  \<and> (\<forall>q \<in> set refs. \<forall>c rid.
                        map_of creds (ref_cred_id (snd q)) = Some c \<and> rev_reg_id c = Some rid
                          \<and> rid \<noteq> []
                          \<and> truthy_interval (deciding_interval (snd q) (non_revoked pr))
                        \<longrightarrow> (\<exists>i. non_revoked pr = Some i
                               \<and> (rid, window_bounds (current_time env) i)
                                   \<in> set (delta_fetches (new_events w w')))))"
          using 1(12) unfolding schemas cred_defs deltas by blast
      qed
    qed
  qed
qed

subsection \<open>The state an operation leaves\<close>

lemma save_returns:
  "save env r reason w = (Inr r', w') \<Longrightarrow> state r' = state r"
  by (erule save_cases) auto

lemma create_bound_request_state:
  assumes "create_bound_request env r name version nonce comment w = (Inr (r', msg), w')"
  shows "state r' = Some STATE_REQUEST_SENT"
  using assms
  by (auto simp: create_bound_request_def Let_def elim!: bndE dest!: save_returns)

lemma receive_request_state:
  assumes "receive_request env r w = (Inr r', w')"
  shows "state r' = Some STATE_REQUEST_RECEIVED"
  using assms
  by (auto simp: receive_request_def dest!: save_returns)

lemma create_presentation_state:
  assumes "create_presentation env r requested comment w = (Inr (r', msg), w')"
  shows "state r' = Some STATE_PRESENTATION_SENT"
  using assms
proof (cases rule: create_presentation_stages)
  case (assembled refs creds w2 objs w3 pr nrt deltas w4 states w5)
  from assemble_log [OF assembled(7)] show ?thesis
    by simp
qed simp_all

lemma receive_presentation_state:
  assumes "receive_presentation env conn msg w = (Inr r', w')"
  shows "state r' = Some STATE_PRESENTATION_RECEIVED"
  using assms
  by (auto simp: receive_presentation_def elim!: bndE dest!: save_returns)

lemma verify_presentation_state:
  assumes "verify_presentation env r w = (Inr r', w')"
  shows "state r' = Some STATE_VERIFIED"
  using verify_presentation_cases [OF assms]
proof (elim disjE exE conjE)
  fix indy_proof S C b i acked
  assume "Inr r' = (case acked of
                      Inl e \<Rightarrow> Inl e
                    | Inr u \<Rightarrow> Inr (r\<lparr>verified := Some (PyStr (json_dumps b)),
                                    state := Some STATE_VERIFIED,
                                    presentation_exchange_id := Some i\<rparr>))"
  then show ?thesis
    by (cases acked) auto
qed simp

lemma receive_presentation_ack_state:
  assumes "receive_presentation_ack env conn msg w = (Inr r', w')"
  shows "state r' = Some STATE_PRESENTATION_ACKED"
  using assms
  by (auto simp: receive_presentation_ack_def elim!: bndE dest!: save_returns
      split: option.splits)

lemma valid_transition_forward:
  assumes "valid_transition env r r'"
  shows "state_rank (state r) < state_rank (state r')"
  using assms
proof cases
  case (bound_request name version nonce comment w msg w')
  with create_bound_request_state [OF bound_request(2)] show ?thesis by auto
next
  case (request_received w w')
  with receive_request_state [OF request_received(2)] show ?thesis by auto
next
  case (presentation_created requested comment w pmsg w')
  with create_presentation_state [OF presentation_created(2)] show ?thesis by auto
next
  case (presentation_received pres conn w w')
  with receive_presentation_state [OF presentation_received(3)] show ?thesis by auto
next
  case (presentation_verified w w')
  with verify_presentation_state [OF presentation_verified(2)] show ?thesis by auto
next
  case (ack_received ack c w w')
  with receive_presentation_ack_state [OF ack_received(3)] show ?thesis by auto
qed

section \<open>The state machine\<close>

text \<open>
  C8.  The rank of a state is its place in the orderings of section 4.5: the states of
  the prover path and those of the verifier path have increasing ranks.  Every valid
  transition (an operation of the manager applied to a record in a state the operation
  expects) moves the record to a state of higher rank, so along a sequence of valid
  transitions the record never moves to an earlier state.
\<close>

theorem state_is_monotonic:
  "sorted_wrt (\<lambda>a b. state_rank (Some a) < state_rank (Some b)) prover_path
   \<and> sorted_wrt (\<lambda>a b. state_rank (Some a) < state_rank (Some b)) verifier_path
   \<and> (valid_transition env r r' \<longrightarrow> state_rank (state r) < state_rank (state r'))
   \<and> ((valid_transition env)\<^sup>*\<^sup>* r r'' \<longrightarrow> state_rank (state r) \<le> state_rank (state r''))"
proof (intro conjI impI)
  assume "(valid_transition env)\<^sup>*\<^sup>* r r''"
  then show "state_rank (state r) \<le> state_rank (state r'')"
  proof (induction rule: rtranclp_induct)
    case base
    show ?case by simp
  next
    case (step y z)
    from valid_transition_forward [OF step.hyps(2)] step.IH show ?case
      by simp
  qed
qed (simp_all add: prover_path_def verifier_path_def valid_transition_forward)

theorem state_is_monotonic_witness:
  "\<exists>r''. valid_transition demo_env demo_verifier_record demo_received_record
      \<and> (valid_transition demo_env)\<^sup>*\<^sup>* demo_verifier_record r''
      \<and> state r'' = Some STATE_VERIFIED
      \<and> state_rank (state demo_verifier_record) < state_rank (state demo_received_record)
      \<and> state_rank (state demo_verifier_record) \<le> state_rank (state r'')"
proof -
  have found: "retrieve_by_tag_filter (presentation_thread_id (demo_presentation_message ''21''))
                 (Some ''conn-1'') demo_world = (Inr demo_verifier_record, demo_world)"
    by (simp add: retrieve_by_tag_filter_def demo_presentation_message_def demo_world_def
        demo_verifier_record_def matches_tags_def)
  obtain w1 where received:
    "receive_presentation demo_env (Some ''conn-1'') (demo_presentation_message ''21'') demo_world
     = (Inr demo_received_record, w1)"
    by (simp add: receive_presentation_def retrieve_by_tag_filter_def matches_tags_def
        demo_presentation_message_def demo_world_def demo_verifier_record_def
        demo_received_record_def demo_proposal_def demo_preview_def demo_request_def
        demo_proof_def demo_env_def deserialize_def revealed_triple_def py_index_def
        has_attr_spec_def bnd_def save_def Let_def)
  obtain r2 w2 where verified:
    "verify_presentation demo_env demo_received_record demo_world = (Inr r2, w2)"
    by (simp add: verify_presentation_def demo_received_record_def demo_verifier_record_def
        demo_proof_def demo_env_def demo_world_def bnd_def save_def send_presentation_ack_def
        json_dumps_def Let_def)
  have first: "valid_transition demo_env demo_verifier_record demo_received_record"
    using found _ received
    by (rule presentation_received) (simp add: demo_verifier_record_def)
  have second: "valid_transition demo_env demo_received_record r2"
    using _ verified
    by (rule presentation_verified) (simp add: demo_received_record_def)
  from first second
  have chain: "(valid_transition demo_env)\<^sup>*\<^sup>* demo_verifier_record r2"
    by simp
  from verify_presentation_state [OF verified] have "state r2 = Some STATE_VERIFIED" .
  with state_is_monotonic [of demo_env demo_verifier_record demo_received_record r2] first chain
  show ?thesis
    by blast
qed

section \<open>Ledger lookups within one call\<close>

lemma revoc_reg_delta_key_eq [simp]:
  "revoc_reg_delta_key rid f t = revoc_reg_delta_key rid' f' t' \<longleftrightarrow> rid = rid' \<and> f = f' \<and> t = t'"
  using revoc_reg_delta_key_inj by blast

lemmas demo_prover_defs = demo_prover_record_def demo_prover_request_def demo_requested_def
  demo_prover_world_def demo_env_def demo_wallet_def demo_proof_def

lemmas create_presentation_defs = create_presentation_def extract_referents_def
  get_credential_def resolve_credential_def fetch_missing_def fetch_delta_def
  compute_revocation_state_def ensure_tails_def leftover_credential_def truthy_interval_def
  save_def bnd_def Let_def new_events_def

lemmas log_defs = schema_fetches_def cred_def_fetches_def rev_reg_def_fetches_def
  delta_fetches_def state_computations_def List.map_filter_simps

lemma fetches_of_calls [simp]:
  "schema_fetches (map GetSchema xs) = xs"
  "cred_def_fetches (map GetSchema xs) = []"
  "schema_fetches (map GetCredentialDefinition xs) = []"
  "cred_def_fetches (map GetCredentialDefinition xs) = xs"
  by (induction xs) (simp_all add: log_defs)

lemma verify_presentation_fetches:
  assumes "verify_presentation env r w = (Inr r', w')"
  shows "\<exists>indy_proof. presentation r = Some indy_proof
           \<and> schema_fetches (new_events w w') = map id_schema_id (identifiers indy_proof)
           \<and> cred_def_fetches (new_events w w') = map id_cred_def_id (identifiers indy_proof)"
  using verify_presentation_cases [OF assms]
proof (elim disjE exE conjE)
  fix indy_proof S C b i acked
  let ?saved = "r\<lparr>verified := Some (PyStr (json_dumps b)), state := Some STATE_VERIFIED,
                   presentation_exchange_id := Some i\<rparr>"
  assume p: "presentation r = Some indy_proof"
    and w': "w' = w\<lparr>store := AList.update i ?saved (store w),
                   journal := journal w
                     @ map GetSchema (map id_schema_id (identifiers indy_proof))
                     @ map GetCredentialDefinition (map id_cred_def_id (identifiers indy_proof))
                     @ [VerifierVerifyPresentation, Persisted ?saved ''verify presentation'']
                     @ (case responder_send_reply env of
                          None \<Rightarrow> []
                        | Some send_reply \<Rightarrow> [SendReply \<lparr>ack_thread_id = thread_id r\<rparr>])\<rparr>"
  have events: "new_events w w'
      = map GetSchema (map id_schema_id (identifiers indy_proof))
        @ map GetCredentialDefinition (map id_cred_def_id (identifiers indy_proof))
        @ [VerifierVerifyPresentation, Persisted ?saved ''verify presentation'']
        @ (case responder_send_reply env of
             None \<Rightarrow> []
           | Some send_reply \<Rightarrow> [SendReply \<lparr>ack_thread_id = thread_id r\<rparr>])"
    by (simp add: w' new_events_def)
  have tail: "schema_fetches [VerifierVerifyPresentation, Persisted ?saved ''verify presentation'']
              = []"
    "cred_def_fetches [VerifierVerifyPresentation, Persisted ?saved ''verify presentation'']
     = []"
    "schema_fetches (case responder_send_reply env of
                       None \<Rightarrow> []
                     | Some send_reply \<Rightarrow> [SendReply \<lparr>ack_thread_id = thread_id r\<rparr>]) = []"
    "cred_def_fetches (case responder_send_reply env of
                         None \<Rightarrow> []
                       | Some send_reply \<Rightarrow> [SendReply \<lparr>ack_thread_id = thread_id r\<rparr>]) = []"
    by (simp_all add: log_defs split: option.splits)
  show ?thesis
    using p by (simp only: events fetches_append fetches_of_calls tail) simp
qed simp

text \<open>
  Within one call of \<open>create_presentation\<close> no schema id and no credential definition
  id is fetched from the ledger twice; when the call succeeds, the schema and the
  credential definition of every requested credential have been fetched exactly once.
  Within one call of \<open>verify_presentation\<close> that returns, the ledger is asked for the
  schema and the credential definition of every identifier of the presentation, one
  after the other.
\<close>

lemma ledger_fetches_per_call:
  "(create_presentation env r requested comment w = (res, w') \<longrightarrow>
      distinct (schema_fetches (new_events w w'))
      \<and> distinct (cred_def_fetches (new_events w w'))
      \<and> (\<forall>result refs q c.
            res = Inr result
            \<and> extract_referents (presentation_request r) requested = Inr refs
            \<and> q \<in> set refs
            \<and> holder_get_credential env (ref_cred_id (snd q)) = Inr c
            \<longrightarrow> count_list (schema_fetches (new_events w w')) (schema_id c) = 1
                \<and> count_list (cred_def_fetches (new_events w w')) (cred_def_id c) = 1))
   \<and> (verify_presentation env v u = (Inr v', u') \<longrightarrow>
        (\<exists>indy_proof.
            presentation v = Some indy_proof
            \<and> schema_fetches (new_events u u') = map id_schema_id (identifiers indy_proof)
            \<and> cred_def_fetches (new_events u u') = map id_cred_def_id (identifiers indy_proof)))"
proof (intro conjI impI allI)
  assume run: "create_presentation env r requested comment w = (res, w')"
  then show "distinct (schema_fetches (new_events w w'))"
    by (cases rule: create_presentation_summary) simp_all
  from run show "distinct (cred_def_fetches (new_events w w'))"
    by (cases rule: create_presentation_summary) simp_all
  fix result refs q c
  assume asm: "res = Inr result
            \<and> extract_referents (presentation_request r) requested = Inr refs
            \<and> q \<in> set refs
            \<and> holder_get_credential env (ref_cred_id (snd q)) = Inr c"
  from run
  have "schema_id c \<in> set (schema_fetches (new_events w w'))
        \<and> cred_def_id c \<in> set (cred_def_fetches (new_events w w'))
        \<and> distinct (schema_fetches (new_events w w'))
        \<and> distinct (cred_def_fetches (new_events w w'))"
  proof (cases rule: create_presentation_summary)
    case early
    with asm show ?thesis by simp
  next
    case (late refs' creds w2)
    with asm have same: "refs' = refs"
      by simp
    from asm have "snd q \<in> set (map snd refs)"
      by simp
    from get_credentials_lookup [OF late(2) [unfolded same] this] asm
    have "map_of creds (ref_cred_id (snd q)) = Some c"
      by simp
    then have "c \<in> set (map snd creds)"
      by (auto dest: map_of_SomeD intro: rev_image_eqI)
    with late(3,4,10) asm show ?thesis
      by blast
  qed
  then show "count_list (schema_fetches (new_events w w')) (schema_id c) = 1"
    and "count_list (cred_def_fetches (new_events w w')) (cred_def_id c) = 1"
    by (simp_all add: count_list_distinct)
next
  assume "verify_presentation env v u = (Inr v', u')"
  then show "\<exists>indy_proof.
            presentation v = Some indy_proof
            \<and> schema_fetches (new_events u u') = map id_schema_id (identifiers indy_proof)
            \<and> cred_def_fetches (new_events u u') = map id_cred_def_id (identifiers indy_proof)"
    by (rule verify_presentation_fetches)
qed

text \<open>
  C6.  The code at an input where it departs from the claim.  The presentation has two
  identifiers under the schema \<open>S\<close>, with the credential definitions \<open>D2\<close> and \<open>D\<close>:
  one call of \<open>verify_presentation\<close> fetches the schema \<open>S\<close> from the ledger twice, and
  returns with the record verified.  \<open>create_presentation\<close> on two credentials under the
  schema \<open>S\<close> fetches it once.
\<close>

theorem verify_presentation_fetches_schema_twice:
  "map id_schema_id (identifiers (demo_two_identifier_proof 1 ''21'')) = [''S'', ''S'']
   \<and> presentation demo_two_identifier_record = Some (demo_two_identifier_proof 1 ''21'')
   \<and> schema_fetches
        (new_events demo_world
           (snd (verify_presentation demo_env demo_two_identifier_record demo_world)))
       = [''S'', ''S'']
   \<and> count_list
        (schema_fetches
           (new_events demo_world
              (snd (verify_presentation demo_env demo_two_identifier_record demo_world))))
        ''S'' = 2
   \<and> cred_def_fetches
        (new_events demo_world
           (snd (verify_presentation demo_env demo_two_identifier_record demo_world)))
       = [''D2'', ''D'']
   \<and> map_sum id state (fst (verify_presentation demo_env demo_two_identifier_record demo_world))
       = Inr (Some STATE_VERIFIED)
   \<and> map (schema_id \<circ> snd) (take 2 demo_wallet) = [''S'', ''S'']
   \<and> schema_fetches
        (new_events demo_prover_world
           (snd (create_presentation demo_env
                   (demo_prover_record None (Some \<lparr>nr_from = Some 10, nr_to = None\<rparr>))
                   (demo_requested ''cred2'') None demo_prover_world)))
       = [''S'']"
  by (simp add: verify_presentation_def demo_two_identifier_record_def demo_verifier_record_def
      demo_two_identifier_proof_def demo_world_def send_presentation_ack_def json_dumps_def
      demo_prover_defs create_presentation_defs log_defs)

section \<open>Revocation lookups of \<open>create_presentation\<close>\<close>



text \<open>
  C9.  Every revocation state that \<open>create_presentation\<close> computes is computed with the
  \<open>cred_rev_id\<close> of the credential that the loop over the credentials left in its
  variable: the last value of the dictionary \<open>credentials\<close>, whatever the registry of the
  state is.  In the example the referents are answered from the credentials \<open>cred1\<close> (in
  the registry \<open>reg1\<close>, with the revocation id 1) and \<open>cred2\<close> (in \<open>reg2\<close>, with the
  revocation id 2): the state of \<open>reg1\<close> is computed with the revocation id 2.
\<close>

theorem revocation_state_uses_last_credential:
  "(create_presentation env r requested comment w = (res, w')
      \<and> (rid, crid) \<in> set (state_computations (new_events w w'))
    \<longrightarrow> (\<exists>refs creds w2.
           extract_referents (presentation_request r) requested = Inr refs
           \<and> get_credentials env (map snd refs) [] w = (Inr creds, w2)
           \<and> creds \<noteq> []
           \<and> crid = cred_rev_id (snd (last creds))))
   \<and> map_option (\<lambda>c. (rev_reg_id c, cred_rev_id c)) (map_of demo_wallet ''cred1'')
       = Some (Some ''reg1'', Some ''1'')
   \<and> map_option (\<lambda>c. (rev_reg_id c, cred_rev_id c)) (map_of demo_wallet ''cred2'')
       = Some (Some ''reg2'', Some ''2'')
   \<and> state_computations
        (new_events demo_prover_world
           (snd (create_presentation demo_env
                   (demo_prover_record None (Some \<lparr>nr_from = Some 10, nr_to = None\<rparr>))
                   (demo_requested ''cred2'') None demo_prover_world)))
       = [(''reg1'', Some ''2''), (''reg2'', Some ''2'')]"
proof (intro conjI impI)
  assume asm: "create_presentation env r requested comment w = (res, w')
      \<and> (rid, crid) \<in> set (state_computations (new_events w w'))"
  then have run: "create_presentation env r requested comment w = (res, w')"
    and computed: "(rid, crid) \<in> set (state_computations (new_events w w'))"
    by simp_all
  from run
  show "\<exists>refs creds w2.
           extract_referents (presentation_request r) requested = Inr refs
           \<and> get_credentials env (map snd refs) [] w = (Inr creds, w2)
           \<and> creds \<noteq> []
           \<and> crid = cred_rev_id (snd (last creds))"
  proof (cases rule: create_presentation_summary)
    case early
    with computed show ?thesis by simp
  next
    case (late refs creds w2)
    from late(9) computed obtain c where "leftover_credential creds = Some c"
      and "crid = cred_rev_id c"
      by fastforce
    then have "creds \<noteq> []" and "crid = cred_rev_id (snd (last creds))"
      by (auto simp: leftover_credential_def split: if_splits)
    with late(1,2) show ?thesis
      by blast
  qed
qed (simp_all add: demo_prover_defs create_presentation_defs log_defs)

theorem revocation_state_uses_last_credential_witness:
  "\<exists>w2. get_credentials demo_env
           (map snd [(''attr1'', \<lparr>ref_cred_id = ''cred1'', ref_non_revoked = None\<rparr>),
                     (''attr2'', \<lparr>ref_cred_id = ''cred2'', ref_non_revoked = None\<rparr>),
                     (''pred1'', \<lparr>ref_cred_id = ''cred1'', ref_non_revoked = None\<rparr>)])
           [] demo_prover_world
         = (Inr [(''cred1'', \<lparr>schema_id = ''S'', cred_def_id = ''D'', rev_reg_id = Some ''reg1'',
                               cred_rev_id = Some ''1''\<rparr>),
                 (''cred2'', \<lparr>schema_id = ''S'', cred_def_id = ''D2'', rev_reg_id = Some ''reg2'',
                               cred_rev_id = Some ''2''\<rparr>)], w2)
      \<and> (''reg1'', Some ''2'')
          \<in> set (state_computations
                   (new_events demo_prover_world
                      (snd (create_presentation demo_env
                              (demo_prover_record None (Some \<lparr>nr_from = Some 10, nr_to = None\<rparr>))
                              (demo_requested ''cred2'') None demo_prover_world))))"
proof -
  let ?r = "demo_prover_record None (Some \<lparr>nr_from = Some 10, nr_to = None\<rparr>)"
  let ?run = "create_presentation demo_env ?r (demo_requested ''cred2'') None demo_prover_world"
  note claim = revocation_state_uses_last_credential
    [of demo_env ?r "demo_requested ''cred2''" None demo_prover_world "fst ?run" "snd ?run"
        "''reg1''" "Some ''2''"]
  from claim have computed: "(''reg1'', Some ''2'')
          \<in> set (state_computations (new_events demo_prover_world (snd ?run)))"
    by simp
  with claim [THEN conjunct1]
  obtain refs creds w2 where
    "extract_referents (presentation_request ?r) (demo_requested ''cred2'') = Inr refs"
    and "get_credentials demo_env (map snd refs) [] demo_prover_world = (Inr creds, w2)"
    and "creds \<noteq> []" and "Some ''2'' = cred_rev_id (snd (last creds))"
    by auto
  moreover
  have "extract_referents (presentation_request ?r) (demo_requested ''cred2'')
              = Inr [(''attr1'', \<lparr>ref_cred_id = ''cred1'', ref_non_revoked = None\<rparr>),
                     (''attr2'', \<lparr>ref_cred_id = ''cred2'', ref_non_revoked = None\<rparr>),
                     (''pred1'', \<lparr>ref_cred_id = ''cred1'', ref_non_revoked = None\<rparr>)]"
    by (simp add: demo_prover_defs extract_referents_def)
  moreover
  have "fst (get_credentials demo_env
           (map snd [(''attr1'', \<lparr>ref_cred_id = ''cred1'', ref_non_revoked = None\<rparr>),
                     (''attr2'', \<lparr>ref_cred_id = ''cred2'', ref_non_revoked = None\<rparr>),
                     (''pred1'', \<lparr>ref_cred_id = ''cred1'', ref_non_revoked = None\<rparr>)])
           [] demo_prover_world)
         = Inr [(''cred1'', \<lparr>schema_id = ''S'', cred_def_id = ''D'', rev_reg_id = Some ''reg1'',
                               cred_rev_id = Some ''1''\<rparr>),
                 (''cred2'', \<lparr>schema_id = ''S'', cred_def_id = ''D2'', rev_reg_id = Some ''reg2'',
                               cred_rev_id = Some ''2''\<rparr>)]"
    by (simp add: demo_prover_defs get_credential_def fetch_missing_def bnd_def)
  ultimately show ?thesis
    using computed by auto
qed

section \<open>Credentials without a registry, referents without an interval\<close>

lemma create_presentation_without_intervals:
  assumes refs: "extract_referents (presentation_request r) requested = Inr refs"
    and pr: "presentation_request r = Some pr"
    and request_level: "non_revoked pr = None"
    and own: "\<forall>q \<in> set refs. ref_non_revoked (snd q) = None"
    and holder: "\<forall>q \<in> set refs. \<exists>c. holder_get_credential env (ref_cred_id (snd q)) = Inr c"
    and ledger: "\<forall>i. \<exists>s. ledger_get_schema env i = Inr s"
      "\<forall>i. \<exists>d. ledger_get_credential_definition env i = Inr d"
      "\<forall>i. \<exists>d. ledger_get_revoc_reg_def env i = Inr d"
    and assembles: "\<forall>a b c d e. \<exists>p. holder_create_presentation env a b c d e = Inr p"
    and storage: "\<forall>x. storage_fault env x = None"
  shows "\<exists>r' msg w'. create_presentation env r requested comment w = (Inr (r', msg), w')
           \<and> delta_fetches (new_events w w') = []
           \<and> state_computations (new_events w w') = []
           \<and> state r' = Some STATE_PRESENTATION_SENT"
proof -
  let ?objs0 = "\<lparr>schemas = [], credential_definitions = [], revocation_registries = []\<rparr>"
  let ?request = "Some (pr\<lparr>non_revoked := None\<rparr>)"
  from holder have "\<forall>x \<in> set (map snd refs). \<exists>c. holder_get_credential env (ref_cred_id x) = Inr c"
    by simp
  from get_credentials_returns [OF this]
  obtain creds w2 where creds: "get_credentials env (map snd refs) [] w = (Inr creds, w2)"
    by blast
  from ledger resolve_credentials_returns [of "map snd creds" env ?objs0 w2]
  obtain objs w3 where objs: "resolve_credentials env (map snd creds) ?objs0 w2 = (Inr objs, w3)"
    by blast
  have "map_of creds (ref_cred_id x) \<noteq> None" if "x \<in> set (map snd refs)" for x
  proof -
    from that have "ref_cred_id x \<in> ref_cred_id ` set (map snd refs)"
      by (rule imageI)
    with get_credentials_keys [OF creds] have "ref_cred_id x \<in> dom (map_of creds)"
      by simp
    then show ?thesis by auto
  qed
  then have "\<forall>x \<in> set (map snd refs). map_of creds (ref_cred_id x) \<noteq> None"
    by blast
  with own
  have deltas: "fetch_deltas env creds (map snd refs) (None, []) w3 = (Inr (None, []), w3)"
    by (intro fetch_deltas_without_intervals) simp_all
  from assembles obtain p where
    p: "holder_create_presentation env ?request requested (schemas objs)
          (credential_definitions objs) [] = Inr p"
    by blast
  let ?w4 = "w3\<lparr>journal := journal w3 @ [HolderCreatePresentation ?request []]\<rparr>"
  let ?sent = "r\<lparr>state := Some STATE_PRESENTATION_SENT, presentation := Some p,
                  presentation_request := ?request\<rparr>"
  from storage have "storage_fault env ?sent = None"
    by simp
  from save_ok [OF this, of "''create presentation''" ?w4]
  obtain i where saved: "save env ?sent ''create presentation'' ?w4
      = (Inr (?sent\<lparr>presentation_exchange_id := Some i\<rparr>),
         ?w4\<lparr>store := AList.update i (?sent\<lparr>presentation_exchange_id := Some i\<rparr>) (store ?w4),
              journal := journal ?w4 @ [Persisted (?sent\<lparr>presentation_exchange_id := Some i\<rparr>)
                                          ''create presentation'']\<rparr>)"
    by (elim exE)
  let ?w5 = "?w4\<lparr>store := AList.update i (?sent\<lparr>presentation_exchange_id := Some i\<rparr>) (store ?w4),
              journal := journal ?w4 @ [Persisted (?sent\<lparr>presentation_exchange_id := Some i\<rparr>)
                                          ''create presentation'']\<rparr>"
  let ?msg = "\<lparr>presentation_thread_id = thread_id r, presentation_comment = comment,
              presentations_attach = p\<rparr>"
  have run: "create_presentation env r requested comment w
             = (Inr (?sent\<lparr>presentation_exchange_id := Some i\<rparr>, ?msg), ?w5)"
    using refs pr request_level creds objs deltas p saved
    by (simp add: create_presentation_def bnd_Inr)
  from get_credentials_log [OF creds] resolve_credentials_log [OF objs]
  have p2: "prefix (journal w) (journal w2)"
    and s2: "\<forall>e \<in> set (new_events w w2). stage_of e = CredentialStage"
    and p3: "prefix (journal w2) (journal w3)"
    and s3: "\<forall>e \<in> set (new_events w2 w3). stage_of e = LedgerStage"
    by blast+
  from p2 p3 have p23: "prefix (journal w) (journal w3)"
    by (rule prefix_journal_trans)
  have "journal ?w5 = journal w3 @ [HolderCreatePresentation ?request [],
                                    Persisted (?sent\<lparr>presentation_exchange_id := Some i\<rparr>)
                                      ''create presentation'']"
    by simp
  with journal_split [OF p23]
  have "journal ?w5 = journal w @ new_events w w3
                      @ [HolderCreatePresentation ?request [],
                         Persisted (?sent\<lparr>presentation_exchange_id := Some i\<rparr>)
                           ''create presentation'']"
    by simp
  from new_events_append [OF this] new_events_trans [OF p2 p3]
  have events: "new_events w ?w5
                = new_events w w2 @ new_events w2 w3
                  @ [HolderCreatePresentation ?request [],
                     Persisted (?sent\<lparr>presentation_exchange_id := Some i\<rparr>)
                       ''create presentation'']"
    by simp
  have "delta_fetches (new_events w ?w5) = []"
    unfolding events
    by (simp add: no_delta_fetches [OF s2] no_delta_fetches [OF s3])
      (simp add: delta_fetches_def List.map_filter_simps)
  moreover
  have "state_computations (new_events w ?w5) = []"
    unfolding events
    by (simp add: no_state_computations [OF s2] no_state_computations [OF s3])
      (simp add: state_computations_def List.map_filter_simps)
  ultimately show ?thesis
    using run by simp
qed

text \<open>
  C7.  In every run of \<open>create_presentation\<close>, a registry id for which the registry
  definition or a delta is fetched, or a revocation state is computed, is not empty
  and is the registry id of a credential the holder returned for a requested referent:
  a credential without a registry id causes none of these.  A referent that has no
  interval of its own, under a request without an interval, leaves the loop's state as
  it is, calls nothing and raises nothing.  When that holds for all referents and the
  collaborators answer, the call returns with the presentation sent, no delta fetched
  and no revocation state computed.
\<close>

theorem revocation_processing_is_skipped:
  "(create_presentation env r requested comment w = (res, w')
      \<and> (rid \<in> set (rev_reg_def_fetches (new_events w w'))
           \<or> rid \<in> fst ` set (delta_fetches (new_events w w'))
           \<or> rid \<in> fst ` set (state_computations (new_events w w')))
    \<longrightarrow> rid \<noteq> []
        \<and> (\<exists>refs q c.
              extract_referents (presentation_request r) requested = Inr refs
              \<and> q \<in> set refs
              \<and> holder_get_credential env (ref_cred_id (snd q)) = Inr c
              \<and> rev_reg_id c = Some rid))
   \<and> (map_of creds (ref_cred_id x) = Some c \<and> ref_non_revoked x = None
      \<longrightarrow> fetch_delta env creds x (None, deltas) w = (Inr (None, deltas), w))
   \<and> (extract_referents (presentation_request r) requested = Inr refs
        \<and> presentation_request r = Some pr
        \<and> non_revoked pr = None
        \<and> (\<forall>q \<in> set refs. ref_non_revoked (snd q) = None)
        \<and> (\<forall>q \<in> set refs. \<exists>c. holder_get_credential env (ref_cred_id (snd q)) = Inr c)
        \<and> (\<forall>i. \<exists>s. ledger_get_schema env i = Inr s)
        \<and> (\<forall>i. \<exists>d. ledger_get_credential_definition env i = Inr d)
        \<and> (\<forall>i. \<exists>d. ledger_get_revoc_reg_def env i = Inr d)
        \<and> (\<forall>a b c d e. \<exists>p. holder_create_presentation env a b c d e = Inr p)
        \<and> (\<forall>x. storage_fault env x = None)
      \<longrightarrow> (\<exists>r' msg w'.
             create_presentation env r requested comment w = (Inr (r', msg), w')
             \<and> delta_fetches (new_events w w') = []
             \<and> state_computations (new_events w w') = []
             \<and> state r' = Some STATE_PRESENTATION_SENT))"
proof (intro conjI impI)
  assume asm: "create_presentation env r requested comment w = (res, w')
      \<and> (rid \<in> set (rev_reg_def_fetches (new_events w w'))
           \<or> rid \<in> fst ` set (delta_fetches (new_events w w'))
           \<or> rid \<in> fst ` set (state_computations (new_events w w')))"
  then have run: "create_presentation env r requested comment w = (res, w')"
    by simp
  from run
  have "rid \<noteq> []
        \<and> (\<exists>refs q c.
              extract_referents (presentation_request r) requested = Inr refs
              \<and> q \<in> set refs
              \<and> holder_get_credential env (ref_cred_id (snd q)) = Inr c
              \<and> rev_reg_id c = Some rid)"
  proof (cases rule: create_presentation_summary)
    case early
    with asm show ?thesis by simp
  next
    case (late refs creds w2)
    from asm late(7,8,9) have "rid \<in> revocable_ids (map snd creds)"
      by auto
    then obtain c where nonempty: "rid \<noteq> []" and c: "c \<in> set (map snd creds)"
      and carries: "rev_reg_id c = Some rid"
      by (auto simp: revocable_ids_def)
    from get_credentials_origin [OF late(2) c]
    obtain x where "x \<in> set (map snd refs)"
      and "holder_get_credential env (ref_cred_id x) = Inr c"
      by blast
    then obtain q where "q \<in> set refs"
      and "holder_get_credential env (ref_cred_id (snd q)) = Inr c"
      by auto
    with late(1) nonempty carries show ?thesis
      by blast
  qed
  then show "rid \<noteq> []"
    and "\<exists>refs q c.
              extract_referents (presentation_request r) requested = Inr refs
              \<and> q \<in> set refs
              \<and> holder_get_credential env (ref_cred_id (snd q)) = Inr c
              \<and> rev_reg_id c = Some rid"
    by simp_all
next
  assume "map_of creds (ref_cred_id x) = Some c \<and> ref_non_revoked x = None"
  then show "fetch_delta env creds x (None, deltas) w = (Inr (None, deltas), w)"
    by (simp add: fetch_delta_def truthy_interval_def split: option.splits)
next
  assume "extract_referents (presentation_request r) requested = Inr refs
        \<and> presentation_request r = Some pr
        \<and> non_revoked pr = None
        \<and> (\<forall>q \<in> set refs. ref_non_revoked (snd q) = None)
        \<and> (\<forall>q \<in> set refs. \<exists>c. holder_get_credential env (ref_cred_id (snd q)) = Inr c)
        \<and> (\<forall>i. \<exists>s. ledger_get_schema env i = Inr s)
        \<and> (\<forall>i. \<exists>d. ledger_get_credential_definition env i = Inr d)
        \<and> (\<forall>i. \<exists>d. ledger_get_revoc_reg_def env i = Inr d)
        \<and> (\<forall>a b c d e. \<exists>p. holder_create_presentation env a b c d e = Inr p)
        \<and> (\<forall>x. storage_fault env x = None)"
  then show "\<exists>r' msg w'.
             create_presentation env r requested comment w = (Inr (r', msg), w')
             \<and> delta_fetches (new_events w w') = []
             \<and> state_computations (new_events w w') = []
             \<and> state r' = Some STATE_PRESENTATION_SENT"
    by (elim conjE)
      (rule create_presentation_without_intervals [where refs = refs and pr = pr], assumption+)
qed

theorem revocation_processing_is_skipped_witness:
  "map_option rev_reg_id (map_of demo_wallet ''cred3'') = Some None
   \<and> rev_reg_def_fetches
        (new_events demo_prover_world
           (snd (create_presentation demo_env (demo_prover_record None None)
                   (demo_requested ''cred3'') None demo_prover_world))) = [''reg1'']
   \<and> (\<exists>refs q c.
          extract_referents (presentation_request (demo_prover_record None None))
            (demo_requested ''cred3'') = Inr refs
          \<and> q \<in> set refs
          \<and> holder_get_credential demo_env (ref_cred_id (snd q)) = Inr c
          \<and> rev_reg_id c = Some ''reg1'')
   \<and> fetch_delta demo_env demo_wallet \<lparr>ref_cred_id = ''cred1'', ref_non_revoked = None\<rparr>
        (None, []) demo_prover_world = (Inr (None, []), demo_prover_world)
   \<and> (\<exists>r' msg w'.
          create_presentation demo_env (demo_prover_record None None) (demo_requested ''cred3'')
            None demo_prover_world = (Inr (r', msg), w')
          \<and> delta_fetches (new_events demo_prover_world w') = []
          \<and> state_computations (new_events demo_prover_world w') = []
          \<and> state r' = Some STATE_PRESENTATION_SENT)"
proof -
  let ?r = "demo_prover_record None None"
  let ?run = "create_presentation demo_env ?r (demo_requested ''cred3'') None demo_prover_world"
  have refs: "extract_referents (presentation_request ?r) (demo_requested ''cred3'')
              = Inr [(''attr1'', \<lparr>ref_cred_id = ''cred1'', ref_non_revoked = None\<rparr>),
                     (''attr2'', \<lparr>ref_cred_id = ''cred3'', ref_non_revoked = None\<rparr>),
                     (''pred1'', \<lparr>ref_cred_id = ''cred1'', ref_non_revoked = None\<rparr>)]"
    by (simp add: demo_prover_defs extract_referents_def)
  have request: "presentation_request ?r = Some (demo_prover_request None None)"
    by (simp add: demo_prover_record_def)
  have fetched: "rev_reg_def_fetches (new_events demo_prover_world (snd ?run)) = [''reg1'']"
    by (simp add: demo_prover_defs create_presentation_defs log_defs)
  have wallet: "map_option rev_reg_id (map_of demo_wallet ''cred3'') = Some None"
    "map_of demo_wallet ''cred1''
     = Some \<lparr>schema_id = ''S'', cred_def_id = ''D'', rev_reg_id = Some ''reg1'',
             cred_rev_id = Some ''1''\<rparr>"
    by (simp_all add: demo_wallet_def)
  note claim = revocation_processing_is_skipped
    [of demo_env ?r "demo_requested ''cred3''" None demo_prover_world "fst ?run" "snd ?run"
        "''reg1''" demo_wallet "\<lparr>ref_cred_id = ''cred1'', ref_non_revoked = None\<rparr>"
        "\<lparr>schema_id = ''S'', cred_def_id = ''D'', rev_reg_id = Some ''reg1'',
          cred_rev_id = Some ''1''\<rparr>" "[]"
        "[(''attr1'', \<lparr>ref_cred_id = ''cred1'', ref_non_revoked = None\<rparr>),
          (''attr2'', \<lparr>ref_cred_id = ''cred3'', ref_non_revoked = None\<rparr>),
          (''pred1'', \<lparr>ref_cred_id = ''cred1'', ref_non_revoked = None\<rparr>)]"
        "demo_prover_request None None"]
  from claim [THEN conjunct1] fetched
  have origin: "\<exists>refs q c.
          extract_referents (presentation_request ?r) (demo_requested ''cred3'') = Inr refs
          \<and> q \<in> set refs
          \<and> holder_get_credential demo_env (ref_cred_id (snd q)) = Inr c
          \<and> rev_reg_id c = Some ''reg1''"
    by simp
  from claim [THEN conjunct2, THEN conjunct1] wallet
  have step: "fetch_delta demo_env demo_wallet \<lparr>ref_cred_id = ''cred1'', ref_non_revoked = None\<rparr>
        (None, []) demo_prover_world = (Inr (None, []), demo_prover_world)"
    by simp
  from claim [THEN conjunct2, THEN conjunct2] refs request
  have whole: "\<exists>r' msg w'.
          create_presentation demo_env ?r (demo_requested ''cred3'') None demo_prover_world
            = (Inr (r', msg), w')
          \<and> delta_fetches (new_events demo_prover_world w') = []
          \<and> state_computations (new_events demo_prover_world w') = []
          \<and> state r' = Some STATE_PRESENTATION_SENT"
    by (simp add: demo_prover_request_def demo_env_def demo_wallet_def)
  from wallet(1) fetched origin step whole show ?thesis
    by blast
qed

section \<open>The interval of a referent\<close>

text \<open>
  One turn of the loop over the referents, whatever interval the referent has of its
  own: a delta is fetched for the bounds of the request's interval, and where the
  request has no interval a referent with an interval of its own, whose credential is
  in a registry, stops the call with \<open>TypeError\<close>.
\<close>

lemma fetch_delta_reads_request_interval:
  assumes "fetch_delta env creds x (request_level, deltas) w = (res, w')"
    and "(rid, f, t) \<in> set (delta_fetches (new_events w w'))"
  shows "\<exists>i. request_level = Some i
           \<and> f = (case nr_from i of None \<Rightarrow> 0 | Some a \<Rightarrow> a)
           \<and> t = (case nr_to i of None \<Rightarrow> current_time env | Some b \<Rightarrow> b)"
  using assms
  by (cases rule: fetch_delta_cases)
    (auto simp: new_events_def delta_fetches_def List.map_filter_simps window_bounds_def)

lemma fetch_delta_without_request_interval:
  assumes "map_of creds (ref_cred_id x) = Some c"
    and "rev_reg_id c = Some rid" and "rid \<noteq> []"
    and "ref_non_revoked x = Some own" and "nr_from own \<noteq> None \<or> nr_to own \<noteq> None"
  shows "fetch_delta env creds x (None, deltas) w = (Inl TypeError, w)"
  using assms by (auto simp: fetch_delta_def truthy_interval_def)

text \<open>
  C2.  The code at the inputs where it departs from the claim.  The referent \<open>attr1\<close> has
  the interval from 10 to 20 of its own, the request has the interval from 1 to 2, and
  the credential of \<open>attr1\<close> is in the registry \<open>reg1\<close>: the delta of \<open>reg1\<close> is fetched for
  the interval from 1 to 2.  With the same referent under a request that has no
  interval, the call fails with \<open>TypeError\<close>.  With no interval but the request's, from
  10 with no end, the end the loop fills in (the current time, 1000) is written into the
  request that is handed to the holder.
\<close>

theorem create_presentation_reads_request_interval:
  "map_of (requested_attributes
             (demo_prover_request (Some \<lparr>nr_from = Some 10, nr_to = Some 20\<rparr>)
                (Some \<lparr>nr_from = Some 1, nr_to = Some 2\<rparr>))) ''attr1''
     = Some \<lparr>item_name = Some ''age'',
             item_non_revoked = Some \<lparr>nr_from = Some 10, nr_to = Some 20\<rparr>\<rparr>
   \<and> delta_fetches
        (new_events demo_prover_world
           (snd (create_presentation demo_env
                   (demo_prover_record (Some \<lparr>nr_from = Some 10, nr_to = Some 20\<rparr>)
                      (Some \<lparr>nr_from = Some 1, nr_to = Some 2\<rparr>))
                   (demo_requested ''cred3'') None demo_prover_world)))
       = [(''reg1'', 1, 2)]
   \<and> fst (create_presentation demo_env
             (demo_prover_record (Some \<lparr>nr_from = Some 10, nr_to = Some 20\<rparr>) None)
             (demo_requested ''cred3'') None demo_prover_world)
       = Inl TypeError
   \<and> HolderCreatePresentation
        (Some (demo_prover_request None (Some \<lparr>nr_from = Some 10, nr_to = Some 1000\<rparr>)))
        [(''reg1'', [(1000, ''state'')]), (''reg2'', [(1000, ''state'')])]
       \<in> set (new_events demo_prover_world
                (snd (create_presentation demo_env
                        (demo_prover_record None (Some \<lparr>nr_from = Some 10, nr_to = None\<rparr>))
                        (demo_requested ''cred2'') None demo_prover_world)))"
  by (simp add: demo_prover_defs create_presentation_defs log_defs)

end
